theory Spec2Isabelle
  imports Main "HOL-Library.Sublist" "HOL-Library.Multiset"
begin

section \<open>Python values used by the converter\<close>

text \<open>
  A Python \<open>str\<close> is a sequence of Unicode code points; it is modelled as a list of
  natural numbers, so that every text the converter can meet has a representation.
  \<open>u\<close> turns an ASCII literal of the source into such a list.
\<close>

type_synonym str = "nat list"

definition u :: "string \<Rightarrow> str" where
  "u s = map of_char s"

text \<open>\<open>str.isspace\<close> on one code point (the class \<open>\s\<close> of \<open>re\<close> on \<open>str\<close> patterns).\<close>

definition isspace :: "nat \<Rightarrow> bool" where
  "isspace c = ((9 \<le> c \<and> c \<le> 13) \<or> (28 \<le> c \<and> c \<le> 32) \<or> c = 133 \<or> c = 160 \<or> c = 5760
     \<or> (8192 \<le> c \<and> c \<le> 8202) \<or> c = 8232 \<or> c = 8233 \<or> c = 8239 \<or> c = 8287 \<or> c = 12288)"

text \<open>\<open>s.strip()\<close>.\<close>

definition strip :: "str \<Rightarrow> str" where
  "strip s = rev (dropWhile isspace (rev (dropWhile isspace s)))"

text \<open>\<open>str(n)\<close> for a non-negative integer, as an f-string renders it.\<close>

function str_nat :: "nat \<Rightarrow> str" where
  "str_nat n = (if n < 10 then [48 + n] else str_nat (n div 10) @ [48 + n mod 10])"
  by pat_completeness auto
termination
  by (relation "measure id") auto

declare str_nat.simps [simp del]

text \<open>
  \<open>s.replace(old, new)\<close>: every leftmost, non-overlapping occurrence of \<open>old\<close> is replaced.
  The source only calls it with non-empty literals for \<open>old\<close>; for an empty \<open>old\<close>
  the text is returned as it is.
\<close>

function replace_str :: "str \<Rightarrow> str \<Rightarrow> str \<Rightarrow> str" where
  "replace_str old new [] = []"
| "replace_str old new (c # cs) =
     (if old \<noteq> [] \<and> prefix old (c # cs)
      then new @ replace_str old new (drop (length old) (c # cs))
      else c # replace_str old new cs)"
  by pat_completeness auto
termination
  by (relation "measure (\<lambda>(old, new, s). length s)") auto

text \<open>\<open>sep.join(xs)\<close> and \<open>s.split(sep)\<close> for a one-character separator.\<close>

fun join_str :: "str \<Rightarrow> str list \<Rightarrow> str" where
  "join_str sep [] = []"
| "join_str sep [x] = x"
| "join_str sep (x # y # ys) = x @ sep @ join_str sep (y # ys)"

fun split_chr :: "nat \<Rightarrow> str \<Rightarrow> str list" where
  "split_chr sep [] = [[]]"
| "split_chr sep (c # cs) =
     (if c = sep then [] # split_chr sep cs
      else (case split_chr sep cs of [] \<Rightarrow> [[c]] | w # ws \<Rightarrow> (c # w) # ws))"

text \<open>The exceptions that \<open>convert\<close> can raise.\<close>

datatype error =
    KeyError str
  | IndexError
  | XMLSyntaxError
  | TypeError
  | UnicodeDecodeError

section \<open>pathlib (POSIX flavour)\<close>

text \<open>
  A pure path is its root (\<open>''\<close>, \<open>/\<close> or \<open>//\<close>) and its components; parsing drops
  empty components and \<open>.\<close>, and keeps \<open>..\<close>.
\<close>

record ppath =
  root :: str
  parts :: "str list"

definition path_parts :: "str \<Rightarrow> str list" where
  "path_parts s = filter (\<lambda>p. p \<noteq> [] \<and> p \<noteq> u ''.'') (split_chr 47 s)"

definition Path :: "str \<Rightarrow> ppath" where
  "Path s =
     (if s \<noteq> [] \<and> hd s = 47
      then (let stripped = dropWhile (\<lambda>c. c = 47) s
            in \<lparr>root = (if length s - length stripped = 2 then u ''//'' else u ''/''),
                parts = path_parts stripped\<rparr>)
      else \<lparr>root = [], parts = path_parts s\<rparr>)"

text \<open>\<open>p.parent\<close>, \<open>p.name\<close>, \<open>p / s\<close> and \<open>p.as_posix()\<close>.\<close>

definition parent :: "ppath \<Rightarrow> ppath" where
  "parent p = (if parts p = [] then p else p\<lparr>parts := butlast (parts p)\<rparr>)"

definition name :: "ppath \<Rightarrow> str" where
  "name p = (if parts p = [] then [] else last (parts p))"

definition joinpath :: "ppath \<Rightarrow> str \<Rightarrow> ppath" where
  "joinpath p s =
     (let q = Path s
      in if root q \<noteq> [] then q else \<lparr>root = root p, parts = parts p @ parts q\<rparr>)"

definition as_posix :: "ppath \<Rightarrow> str" where
  "as_posix p =
     (let s = root p @ join_str (u ''/'') (parts p)
      in if s = [] then u ''.'' else s)"

section \<open>Parsed XML (lxml trees)\<close>

text \<open>
  An element has a qualified name (namespace URI and local name), attributes and child
  nodes; a child is an element, a text node, or a comment or processing instruction
  (\<open>Misc\<close>). The \<open>text\<close> and \<open>tail\<close> strings of lxml are the text nodes here.
\<close>

type_synonym qname = "str \<times> str"

datatype xml =
    Elem qname "(qname \<times> str) list" "xml list"
  | Text str
  | Misc

definition ns_n :: str where
  "ns_n = u ''urn:oasis:names:tc:opendocument:xmlns:container''"

definition ns_opf :: str where
  "ns_opf = u ''http://www.idpf.org/2007/opf''"

definition ns_xhtml :: str where
  "ns_xhtml = u ''http://www.w3.org/1999/xhtml''"

definition ns_epub :: str where
  "ns_epub = u ''http://www.idpf.org/2007/ops''"

definition ns_dc :: str where
  "ns_dc = u ''http://purl.org/dc/elements/1.1/''"

fun is_elem :: "qname \<Rightarrow> xml \<Rightarrow> bool" where
  "is_elem q (Elem q' a ks) = (q' = q)"
| "is_elem q (Text t) = False"
| "is_elem q Misc = False"

fun kids :: "xml \<Rightarrow> xml list" where
  "kids (Elem q a ks) = ks"
| "kids (Text t) = []"
| "kids Misc = []"

text \<open>\<open>e.get(name)\<close>: the value of an attribute, \<open>None\<close> when the element has none.\<close>

fun get_attr :: "xml \<Rightarrow> qname \<Rightarrow> str option" where
  "get_attr (Elem q a ks) n = map_of a n"
| "get_attr (Text t) n = None"
| "get_attr Misc n = None"

text \<open>\<open>e.xpath('./ns:tag')\<close>: the child elements of that name, in document order.\<close>

definition xpath_child :: "qname \<Rightarrow> xml \<Rightarrow> xml list" where
  "xpath_child q e = filter (is_elem q) (kids e)"

text \<open>\<open>root.xpath('//ns:tag')\<close>: all elements of that name, in document order.\<close>

fun elements :: "xml \<Rightarrow> xml list" where
  "elements (Elem q a ks) = Elem q a ks # concat (map elements ks)"
| "elements (Text t) = []"
| "elements Misc = []"

definition xpath_all :: "qname \<Rightarrow> xml \<Rightarrow> xml list" where
  "xpath_all q doc = filter (is_elem q) (elements doc)"

text \<open>\<open>root.xpath('//ns:tag/text()')\<close>: the text nodes whose parent has that name.\<close>

fun xpath_text :: "qname \<Rightarrow> xml \<Rightarrow> str list" where
  "xpath_text q (Elem q' a ks) =
     concat (map (\<lambda>k. case k of Text t \<Rightarrow> (if q' = q then [t] else []) | _ \<Rightarrow> xpath_text q k) ks)"
| "xpath_text q (Text t) = []"
| "xpath_text q Misc = []"

text \<open>\<open>"".join(e.itertext())\<close>: the text nodes below an element, concatenated.\<close>

fun itertext :: "xml \<Rightarrow> str" where
  "itertext (Elem q a ks) = concat (map itertext ks)"
| "itertext (Text t) = t"
| "itertext Misc = []"

section \<open>The converter\<close>

record converter =
  play_order :: nat

text \<open>\<open>EpubConverter.__init__\<close>.\<close>

definition init :: converter where
  "init = \<lparr>play_order = 1\<rparr>"

text \<open>\<open>EpubConverter._get_metadata\<close>.\<close>

definition get_metadata :: "xml \<Rightarrow> str \<Rightarrow> str" where
  "get_metadata opf_xml tag =
     (case xpath_text (ns_dc, tag) opf_xml of [] \<Rightarrow> [] | r # _ \<Rightarrow> strip r)"

text \<open>
  A navigation item: the dictionary with keys \<open>text\<close>, \<open>src\<close> and \<open>children\<close>.
  \<open>src\<close> is \<open>None\<close> when the anchor has no \<open>href\<close> and the navigation document lies
  in the package directory.
\<close>

datatype nav_item = NavItem (label: str) (src: "str option") (children: "nav_item list")

text \<open>Line 47: the target of an item, from the directory of the navigation document.\<close>

definition nav_src :: "ppath \<Rightarrow> str option \<Rightarrow> error + str option" where
  "nav_src nav_rel_dir href =
     (if name nav_rel_dir \<noteq> []
      then (case href of
              None \<Rightarrow> Inl TypeError
            | Some h \<Rightarrow> Inr (Some (as_posix (joinpath nav_rel_dir h))))
      else Inr href)"

definition xhtml_li :: qname where "xhtml_li = (ns_xhtml, u ''li'')"
definition xhtml_a :: qname where "xhtml_a = (ns_xhtml, u ''a'')"
definition xhtml_ol :: qname where "xhtml_ol = (ns_xhtml, u ''ol'')"
definition xhtml_nav :: qname where "xhtml_nav = (ns_xhtml, u ''nav'')"

text \<open>
  \<open>EpubConverter._parse_nav_level\<close>; \<open>parse_lis\<close> is the body of its loop over the
  \<open>li\<close> children.
\<close>

function parse_nav_level :: "xml \<Rightarrow> ppath \<Rightarrow> error + nav_item list"
  and parse_lis :: "xml list \<Rightarrow> ppath \<Rightarrow> error + nav_item list" where
  "parse_nav_level element nav_rel_dir = parse_lis (xpath_child xhtml_li element) nav_rel_dir"
| "parse_lis [] nav_rel_dir = Inr []"
| "parse_lis (li # lis) nav_rel_dir =
     (case xpath_child xhtml_a li of
        [] \<Rightarrow> parse_lis lis nav_rel_dir
      | anchor # _ \<Rightarrow>
          (case nav_src nav_rel_dir (get_attr anchor ([], u ''href'')) of
             Inl e \<Rightarrow> Inl e
           | Inr s \<Rightarrow>
               (case (case xpath_child xhtml_ol li of
                        [] \<Rightarrow> Inr []
                      | ol # _ \<Rightarrow> parse_nav_level ol nav_rel_dir) of
                  Inl e \<Rightarrow> Inl e
                | Inr cs \<Rightarrow>
                    (case parse_lis lis nav_rel_dir of
                       Inl e \<Rightarrow> Inl e
                     | Inr items \<Rightarrow> Inr (NavItem (strip (itertext anchor)) s cs # items)))))"
  by pat_completeness auto
termination
proof (relation "measure (\<lambda>x. case x of Inl (e, d) \<Rightarrow> 2 * size e + 1 | Inr (lis, d) \<Rightarrow> 2 * size_list size lis)")
  have filter_le: "size_list size (filter P xs) \<le> size_list size xs" for P and xs :: "xml list"
    by (induction xs) auto
  have kids_lt: "size_list size (kids e) \<le> size e" for e
    by (cases e) auto
  have child_le: "size_list size (xpath_child q e) \<le> size e" for q e
    unfolding xpath_child_def using filter_le [of "is_elem q" "kids e"] kids_lt [of e] by linarith
  have hd_lt: "size x < size_list size (x # xs)" for x :: xml and xs
    by simp
  show "wf (measure (\<lambda>x. case x of Inl (e, d) \<Rightarrow> 2 * size e + 1 | Inr (lis, d) \<Rightarrow> 2 * size_list size lis))"
    by simp
  show "(Inr (xpath_child xhtml_li element, nav_rel_dir), Inl (element, nav_rel_dir))
      \<in> measure (\<lambda>x. case x of Inl (e, d) \<Rightarrow> 2 * size e + 1 | Inr (lis, d) \<Rightarrow> 2 * size_list size lis)"
    for element :: xml and nav_rel_dir :: ppath
    using child_le [of xhtml_li element] by simp
  show "(Inr (lis, nav_rel_dir), Inr (li # lis, nav_rel_dir))
      \<in> measure (\<lambda>x. case x of Inl (e, d) \<Rightarrow> 2 * size e + 1 | Inr (lis, d) \<Rightarrow> 2 * size_list size lis)"
    for lis :: "xml list" and li :: xml and nav_rel_dir :: ppath
    by simp
  show "(Inl (ol, nav_rel_dir), Inr (li # lis, nav_rel_dir))
      \<in> measure (\<lambda>x. case x of Inl (e, d) \<Rightarrow> 2 * size e + 1 | Inr (lis, d) \<Rightarrow> 2 * size_list size lis)"
    if "xpath_child xhtml_ol li = ol # rest"
    for ol :: xml and rest li and lis :: "xml list" and nav_rel_dir :: ppath
  proof -
    have "size ol < size_list size (xpath_child xhtml_ol li)"
      using that by simp
    then have "size ol < size li"
      using child_le [of xhtml_ol li] by linarith
    then show ?thesis by simp
  qed
  show "(Inr (lis, nav_rel_dir), Inr (li # lis, nav_rel_dir))
      \<in> measure (\<lambda>x. case x of Inl (e, d) \<Rightarrow> 2 * size e + 1 | Inr (lis, d) \<Rightarrow> 2 * size_list size lis)"
    for lis :: "xml list" and li :: xml and nav_rel_dir :: ppath
    by simp
qed

text \<open>An f-string renders \<open>None\<close> as the text \<open>None\<close>.\<close>

definition fmt_opt :: "str option \<Rightarrow> str" where
  "fmt_opt v = (case v of None \<Rightarrow> u ''None'' | Some s \<Rightarrow> s)"

text \<open>
  \<open>EpubConverter._build_ncx_points\<close>: the counter \<open>self._play_order\<close> is passed in and
  returned with the text.
\<close>

fun build_ncx_points :: "nat \<Rightarrow> nav_item list \<Rightarrow> str \<times> nat" where
  "build_ncx_points po [] = ([], po)"
| \<open>build_ncx_points po (NavItem t s cs # rest) =
     (let p_id = u ''nav_'' @ str_nat po;
          xml = u ''<navPoint id="'' @ p_id @ u ''" playOrder="'' @ str_nat po @ u ''">\<newline>'';
          xml = xml @ u ''  <navLabel><text>'' @ t @ u ''</text></navLabel>\<newline>'';
          xml = xml @ u ''  <content src="'' @ fmt_opt s @ u ''"/>\<newline>'';
          po1 = po + 1;
          (sub, po2) = (if cs \<noteq> [] then build_ncx_points po1 cs else ([], po1));
          xml = xml @ sub @ u ''</navPoint>\<newline>'';
          (following, po3) = build_ncx_points po2 rest
      in (xml @ following, po3))\<close>

text \<open>
  Lines 100 to 105: the NCX document around the navigation points. An empty author is
  falsy, so the \<open>docAuthor\<close> block is left out.
\<close>

definition ncx_document :: "str \<Rightarrow> str \<Rightarrow> str \<Rightarrow> str" where
  \<open>ncx_document title author ncx_content =
     (let doc_author = (if author \<noteq> [] then u ''<docAuthor><text>'' @ author @ u ''</text></docAuthor>'' else [])
      in u ''<?xml version="1.0" encoding="UTF-8"?>\<newline>''
         @ u ''<ncx xmlns="http://www.daisy.org/z3986/2005/ncx/" version="2005-1">\<newline>''
         @ u ''<head><meta name="dtb:uid" content="auto-gen"/><meta name="dtb:depth" content="3"/></head>\<newline>''
         @ u ''<docTitle><text>'' @ title @ u ''</text></docTitle>'' @ doc_author @ u ''\<newline>''
         @ u ''<navMap>\<newline>'' @ ncx_content @ u ''</navMap></ncx>'')\<close>

section \<open>Patching the package document\<close>

text \<open>
  A match of \<open>\s*properties="[^"]*nav[^"]*"\<close> at the start of a text, as its length.
  The whitespace run is taken whole (the next character must be \<open>p\<close>), and the value
  ends at the first double quote after \<open>properties="\<close>, since the value characters
  are not quotes; so a match exists exactly when that value contains \<open>nav\<close>.
\<close>

definition match_nav_props :: "str \<Rightarrow> nat option" where
  \<open>match_nav_props s =
     (let ws = takeWhile isspace s;
          r = dropWhile isspace s
      in if prefix (u ''properties="'') r
         then (let r1 = drop 12 r;
                   v = takeWhile (\<lambda>c. c \<noteq> 34) r1;
                   r2 = dropWhile (\<lambda>c. c \<noteq> 34) r1
               in if r2 \<noteq> [] \<and> sublist (u ''nav'') v
                  then Some (length ws + 12 + length v + 1)
                  else None)
         else None)\<close>

text \<open>\<open>re.sub(r'\s*properties="[^"]*nav[^"]*"', '', content)\<close>.\<close>

function sub_nav_props :: "str \<Rightarrow> str" where
  "sub_nav_props [] = []"
| "sub_nav_props (c # cs) =
     (case match_nav_props (c # cs) of
        Some n \<Rightarrow> sub_nav_props (drop n (c # cs))
      | None \<Rightarrow> c # sub_nav_props cs)"
  by pat_completeness auto
termination
  by (relation "measure length")
     (auto simp: match_nav_props_def Let_def split: if_splits)

text \<open>
  A match of \<open><spine([^>]*)>\<close> at the start of a text: group 1 and the length of the
  match.
\<close>

definition match_spine :: "str \<Rightarrow> (str \<times> nat) option" where
  \<open>match_spine s =
     (if prefix (u ''<spine'') s
      then (let r = drop 6 s;
                g = takeWhile (\<lambda>c. c \<noteq> 62) r;
                r2 = dropWhile (\<lambda>c. c \<noteq> 62) r
            in if r2 \<noteq> [] then Some (g, 6 + length g + 1) else None)
      else None)\<close>

text \<open>\<open>re.sub(r'<spine([^>]*)>', r'<spine\1 toc="ncx">', content)\<close>.\<close>

function sub_spine_toc :: "str \<Rightarrow> str" where
  \<open>sub_spine_toc [] = []\<close>
| \<open>sub_spine_toc (c # cs) =
     (case match_spine (c # cs) of
        Some (g, n) \<Rightarrow> u ''<spine'' @ g @ u '' toc="ncx">'' @ sub_spine_toc (drop n (c # cs))
      | None \<Rightarrow> c # sub_spine_toc cs)\<close>
  by pat_completeness auto
termination
  by (relation "measure length")
     (auto simp: match_spine_def Let_def split: if_splits)

definition item_ncx :: str where
  \<open>item_ncx = u ''<item id="ncx" href="toc.ncx" media-type="application/x-dtbncx+xml"/>''\<close>

text \<open>Lines 116 to 121, on the decoded text of the package document.\<close>

definition patch_opf :: "str \<Rightarrow> str" where
  \<open>patch_opf decoded =
     (let content = replace_str (u ''version="3.0"'') (u ''version="2.0"'') decoded;
          content = sub_nav_props content
      in if \<not> sublist (u ''toc.ncx'') content
         then (let content = replace_str (u ''</manifest>'') (item_ncx @ u ''\<newline></manifest>'') content;
                   content = sub_spine_toc content
               in content)
         else content)\<close>

section \<open>Archives\<close>

text \<open>
  An opened archive is the list of its entries in the order of \<open>infolist()\<close>; an entry
  is a \<open>ZipInfo\<close> with the (uncompressed) bytes that reading it gives. The type of byte
  strings is left open.
\<close>

datatype compression = ZIP_STORED | ZIP_DEFLATED | ZIP_OTHER nat

record 'b entry =
  filename :: str
  data :: 'b
  compress_type :: compression

text \<open>
  \<open>zin.read(name)\<close>: the archive looks names up in a dictionary filled in the order of
  the entries, so the last entry of a name is the one that is read.
\<close>

definition zip_read :: "'b entry list \<Rightarrow> str \<Rightarrow> error + 'b" where
  "zip_read zin n =
     (case filter (\<lambda>e. filename e = n) zin of
        [] \<Rightarrow> Inl (KeyError n)
      | e # es \<Rightarrow> Inr (data (last (e # es))))"

text \<open>
  The library functions on byte strings: \<open>etree.fromstring\<close> (\<open>None\<close> is
  \<open>XMLSyntaxError\<close>), \<open>bytes.decode('utf-8')\<close> (\<open>None\<close> is \<open>UnicodeDecodeError\<close>)
  and \<open>str.encode('utf-8')\<close>.
\<close>

record 'b lib =
  fromstring :: "'b \<Rightarrow> xml option"
  decode :: "'b \<Rightarrow> str option"
  encode :: "str \<Rightarrow> 'b"

definition read_xml :: "'b lib \<Rightarrow> 'b entry list \<Rightarrow> str \<Rightarrow> error + xml" where
  "read_xml L zin n =
     (case zip_read zin n of
        Inl e \<Rightarrow> Inl e
      | Inr d \<Rightarrow> (case fromstring L d of None \<Rightarrow> Inl XMLSyntaxError | Some x \<Rightarrow> Inr x))"

text \<open>Lines 74 to 79: the path of the package document, and the parsed document.\<close>

definition locate_opf :: "'b lib \<Rightarrow> 'b entry list \<Rightarrow> error + (ppath \<times> xml)" where
  "locate_opf L zin =
     (case read_xml L zin (u ''META-INF/container.xml'') of
        Inl e \<Rightarrow> Inl e
      | Inr container_xml \<Rightarrow>
          (case List.map_filter (\<lambda>e. get_attr e ([], u ''full-path''))
                  (xpath_all (ns_n, u ''rootfile'') container_xml) of
             [] \<Rightarrow> Inl IndexError
           | opf_rel_path # _ \<Rightarrow>
               (let opf_path = Path opf_rel_path
                in case read_xml L zin (as_posix opf_path) of
                     Inl e \<Rightarrow> Inl e
                   | Inr opf_xml \<Rightarrow> Inr (opf_path, opf_xml))))"

text \<open>\<open>contains(@properties, "nav")\<close>: an absent attribute has the empty string value.\<close>

definition has_nav_property :: "xml \<Rightarrow> bool" where
  "has_nav_property e =
     (case get_attr e ([], u ''properties'') of None \<Rightarrow> False | Some v \<Rightarrow> sublist (u ''nav'') v)"

text \<open>Lines 85 to 96: the navigation tree.\<close>

definition read_nav_points :: "'b lib \<Rightarrow> 'b entry list \<Rightarrow> ppath \<Rightarrow> xml \<Rightarrow> error + nav_item list" where
  "read_nav_points L zin opf_path opf_xml =
     (case filter has_nav_property (xpath_all (ns_opf, u ''item'') opf_xml) of
        [] \<Rightarrow> Inr []
      | nav_meta # _ \<Rightarrow>
          (case get_attr nav_meta ([], u ''href'') of
             None \<Rightarrow> Inl TypeError
           | Some nav_href \<Rightarrow>
               (case read_xml L zin (as_posix (joinpath (parent opf_path) nav_href)) of
                  Inl e \<Rightarrow> Inl e
                | Inr nav_xml \<Rightarrow>
                    (let typed = filter (\<lambda>e. get_attr e (ns_epub, u ''type'') = Some (u ''toc''))
                                   (xpath_all xhtml_nav nav_xml);
                         nav_node = (if typed \<noteq> [] then typed else xpath_all xhtml_nav nav_xml)
                     in case nav_node of
                          [] \<Rightarrow> Inr []
                        | nav # _ \<Rightarrow>
                            (case xpath_child xhtml_ol nav of
                               [] \<Rightarrow> Inr []
                             | ol_node # _ \<Rightarrow> parse_nav_level ol_node (parent (Path nav_href)))))))"

text \<open>Lines 74 to 96 together: everything \<open>convert\<close> reads before it writes.\<close>

definition read_package :: "'b lib \<Rightarrow> 'b entry list \<Rightarrow> error + (ppath \<times> str \<times> str \<times> nav_item list)" where
  "read_package L zin =
     (case locate_opf L zin of
        Inl e \<Rightarrow> Inl e
      | Inr (opf_path, opf_xml) \<Rightarrow>
          (let t = get_metadata opf_xml (u ''title'');
               title = (if t \<noteq> [] then t else u ''Untitled'');
               author = get_metadata opf_xml (u ''creator'')
           in case read_nav_points L zin opf_path opf_xml of
                Inl e \<Rightarrow> Inl e
              | Inr nav_points \<Rightarrow> Inr (opf_path, title, author, nav_points)))"

text \<open>
  Lines 111 to 124: the loop over the entries of the input. \<open>zout\<close> is what the output
  archive holds so far; an exception leaves it as it is.
\<close>

fun copy_items :: "'b lib \<Rightarrow> 'b entry list \<Rightarrow> str \<Rightarrow> 'b entry list \<Rightarrow> 'b entry list
    \<Rightarrow> error option \<times> 'b entry list" where
  "copy_items L zin opf [] zout = (None, zout)"
| "copy_items L zin opf (item # items) zout =
     (if filename item = u ''mimetype'' then copy_items L zin opf items zout
      else (case zip_read zin (filename item) of
              Inl e \<Rightarrow> (Some e, zout)
            | Inr d \<Rightarrow>
                (if filename item = opf
                 then (case decode L d of
                         None \<Rightarrow> (Some UnicodeDecodeError, zout)
                       | Some decoded \<Rightarrow>
                           copy_items L zin opf items
                             (zout @ [\<lparr>filename = filename item, data = encode L (patch_opf decoded),
                                       compress_type = ZIP_DEFLATED\<rparr>]))
                 else copy_items L zin opf items (zout @ [item\<lparr>data := d\<rparr>]))))"

text \<open>
  \<open>EpubConverter.convert\<close>. The result is the outcome (\<open>Inl\<close> the exception raised to the
  caller), the converter afterwards, and the archive at the output path: \<open>None\<close> when
  the output was never opened, the entries written when it was (leaving the \<open>with\<close>
  block closes the archive, also on an exception).
\<close>

definition convert :: "'b lib \<Rightarrow> converter \<Rightarrow> 'b entry list
    \<Rightarrow> (error + unit) \<times> converter \<times> 'b entry list option" where
  "convert L self zin =
     (let self = self\<lparr>play_order := 1\<rparr>
      in case read_package L zin of
           Inl e \<Rightarrow> (Inl e, self, None)
         | Inr (opf_path, title, author, nav_points) \<Rightarrow>
             (let (ncx_content, po) = build_ncx_points (play_order self) nav_points;
                  self = self\<lparr>play_order := po\<rparr>;
                  ncx_str = ncx_document title author ncx_content
              in case (if u ''mimetype'' \<in> set (map filename zin)
                       then (case zip_read zin (u ''mimetype'') of
                               Inl e \<Rightarrow> Inl e
                             | Inr d \<Rightarrow> Inr [\<lparr>filename = u ''mimetype'', data = d,
                                              compress_type = ZIP_STORED\<rparr>])
                       else Inr []) of
                   Inl e \<Rightarrow> (Inl e, self, Some [])
                 | Inr zout \<Rightarrow>
                     (case copy_items L zin (as_posix opf_path) zin zout of
                        (Some e, zout) \<Rightarrow> (Inl e, self, Some zout)
                      | (None, zout) \<Rightarrow>
                          (Inr (), self,
                           Some (zout @ [\<lparr>filename = as_posix (joinpath (parent opf_path) (u ''toc.ncx'')),
                                          data = encode L ncx_str,
                                          compress_type = ZIP_DEFLATED\<rparr>])))))"

section \<open>Play-order numbering, as a tree\<close>

text \<open>
  The synthesizer only produces text. To speak about the numbers it assigns, a navigation
  point is an item together with its play order; \<open>number_points k\<close> gives every item
  the number \<open>k\<close> plus the count of items before it in pre-order, and \<open>render_points\<close>
  writes the numbered tree as the NCX text.
\<close>

fun count_items :: "nav_item list \<Rightarrow> nat" where
  "count_items [] = 0"
| "count_items (NavItem t s cs # rest) = 1 + count_items cs + count_items rest"

datatype nav_point =
  NavPoint (order: nat) (point_label: str) (point_src: "str option") (sub_points: "nav_point list")

fun number_points :: "nat \<Rightarrow> nav_item list \<Rightarrow> nav_point list" where
  "number_points k [] = []"
| "number_points k (NavItem t s cs # rest) =
     NavPoint k t s (number_points (k + 1) cs) # number_points (k + 1 + count_items cs) rest"

fun render_points :: "nav_point list \<Rightarrow> str" where
  \<open>render_points [] = []\<close>
| \<open>render_points (NavPoint n t s subs # rest) =
     u ''<navPoint id="'' @ u ''nav_'' @ str_nat n @ u ''" playOrder="'' @ str_nat n @ u ''">\<newline>''
     @ u ''  <navLabel><text>'' @ t @ u ''</text></navLabel>\<newline>''
     @ u ''  <content src="'' @ fmt_opt s @ u ''"/>\<newline>''
     @ render_points subs @ u ''</navPoint>\<newline>'' @ render_points rest\<close>

text \<open>Forgetting the numbers gives the items back.\<close>

fun erase_points :: "nav_point list \<Rightarrow> nav_item list" where
  "erase_points [] = []"
| "erase_points (NavPoint n t s subs # rest) = NavItem t s (erase_points subs) # erase_points rest"

text \<open>Pre-order, depth first: a point, then its descendants, then its later siblings.\<close>

fun flatten_points :: "nav_point list \<Rightarrow> nav_point list" where
  "flatten_points [] = []"
| "flatten_points (NavPoint n t s subs # rest) =
     NavPoint n t s subs # flatten_points subs @ flatten_points rest"

text \<open>Every point has a smaller play order than each of its descendants.\<close>

fun parents_first :: "nav_point list \<Rightarrow> bool" where
  "parents_first [] = True"
| "parents_first (NavPoint n t s subs # rest) =
     (list_all (\<lambda>d. n < order d) (flatten_points subs) \<and> parents_first subs \<and> parents_first rest)"

text \<open>Every descendant of a point has a smaller play order than each later sibling of the point.\<close>

fun siblings_later :: "nav_point list \<Rightarrow> bool" where
  "siblings_later [] = True"
| "siblings_later (NavPoint n t s subs # rest) =
     (list_all (\<lambda>q. list_all (\<lambda>d. order d < order q) (flatten_points subs)) rest
      \<and> siblings_later subs \<and> siblings_later rest)"

text \<open>A property of every item of a navigation tree, at all levels.\<close>

fun every_item :: "(nav_item \<Rightarrow> bool) \<Rightarrow> nav_item list \<Rightarrow> bool" where
  "every_item P [] = True"
| "every_item P (NavItem t s cs # rest) = (P (NavItem t s cs) \<and> every_item P cs \<and> every_item P rest)"

section \<open>Navigation items and the list items they come from\<close>

text \<open>
  A list item has an anchor when it has an \<open>a\<close> child. \<open>item_of_li d li item\<close> says that
  \<open>item\<close> is what the list item \<open>li\<close> stands for when \<open>d\<close> is the directory of the
  navigation document: the label is the trimmed text of the first anchor of \<open>li\<close>; the
  target is the href of that anchor as it is when \<open>d\<close> has no name (the navigation
  document lies in the directory of the package document), and otherwise the href joined
  to \<open>d\<close> by \<open>pathlib\<close>, for which the anchor must have an href; the children are, in
  order, the items of those list items of the first nested list of \<open>li\<close> that have an
  anchor, and there are none when \<open>li\<close> has no nested list.
\<close>

definition has_anchor :: "xml \<Rightarrow> bool" where
  "has_anchor li = (xpath_child xhtml_a li \<noteq> [])"

fun item_of_li :: "ppath \<Rightarrow> xml \<Rightarrow> nav_item \<Rightarrow> bool" where
  "item_of_li d li (NavItem t s cs) =
     (case xpath_child xhtml_a li of
        [] \<Rightarrow> False
      | anchor # _ \<Rightarrow>
          t = strip (itertext anchor)
          \<and> (if name d = [] then s = get_attr anchor ([], u ''href'')
             else (case get_attr anchor ([], u ''href'') of
                     None \<Rightarrow> False
                   | Some h \<Rightarrow> s = Some (as_posix (joinpath d h))))
          \<and> (case xpath_child xhtml_ol li of
                [] \<Rightarrow> cs = []
              | ol # _ \<Rightarrow> list_all2 (item_of_li d) (filter has_anchor (xpath_child xhtml_li ol)) cs))"

text \<open>The line of a navigation point that carries the target of an item.\<close>

definition content_line :: "nav_item \<Rightarrow> str" where
  \<open>content_line i = u ''  <content src="'' @ fmt_opt (src i) @ u ''"/>\<newline>''\<close>

section \<open>What \<open>convert\<close> writes, entry by entry\<close>

text \<open>
  What the loop of \<open>convert\<close> writes for one entry of the input (\<open>None\<close> when it
  raises), the entry written first for \<open>mimetype\<close>, and the entry written last.
\<close>

definition out_entry :: "'b lib \<Rightarrow> 'b entry list \<Rightarrow> str \<Rightarrow> 'b entry \<Rightarrow> 'b entry option" where
  "out_entry L zin opf item =
     (case zip_read zin (filename item) of
        Inl e \<Rightarrow> None
      | Inr d \<Rightarrow>
          (if filename item = opf
           then (case decode L d of
                   None \<Rightarrow> None
                 | Some decoded \<Rightarrow>
                     Some \<lparr>filename = filename item, data = encode L (patch_opf decoded),
                           compress_type = ZIP_DEFLATED\<rparr>)
           else Some (item\<lparr>data := d\<rparr>)))"

definition mimetype_entry :: "'b entry list \<Rightarrow> 'b entry list" where
  "mimetype_entry zin =
     (if u ''mimetype'' \<in> set (map filename zin)
      then (case zip_read zin (u ''mimetype'') of
              Inl e \<Rightarrow> []
            | Inr d \<Rightarrow> [\<lparr>filename = u ''mimetype'', data = d, compress_type = ZIP_STORED\<rparr>])
      else [])"

definition ncx_entry :: "'b lib \<Rightarrow> ppath \<Rightarrow> str \<Rightarrow> str \<Rightarrow> nav_item list \<Rightarrow> 'b entry" where
  "ncx_entry L opf_path title author items =
     \<lparr>filename = as_posix (joinpath (parent opf_path) (u ''toc.ncx'')),
      data = encode L (ncx_document title author (fst (build_ncx_points 1 items))),
      compress_type = ZIP_DEFLATED\<rparr>"

section \<open>The substitutions of the patcher, as edits\<close>

text \<open>
  One removal by the first regular expression: the text kept before the match, and the
  match itself, which is white space, \<open>properties="\<close>, a value and the closing quote.
  The match is well formed when the white space is white space, the value has no double
  quote and contains \<open>nav\<close>.
\<close>

datatype removal = Removal (kept: str) (spaces: str) (attr_value: str)

fun removal_text :: "removal \<Rightarrow> str" where
  \<open>removal_text (Removal k ws v) = k @ ws @ u ''properties="'' @ v @ u ''"''\<close>

fun removal_ok :: "removal \<Rightarrow> bool" where
  "removal_ok (Removal k ws v) =
     (list_all isspace ws \<and> list_all (\<lambda>c. c \<noteq> 34) v \<and> sublist (u ''nav'') v)"

text \<open>
  The removals are the matches that \<open>re.sub\<close> finds, from left to right: no match of the
  regular expression begins inside a kept text (the text from any of its positions on,
  read with the removed span and all that follows), and none begins inside the last kept
  text.
\<close>

fun removals_leftmost :: "removal list \<Rightarrow> str \<Rightarrow> bool" where
  "removals_leftmost [] tail =
     list_all (\<lambda>x. match_nav_props x = None) (filter (\<lambda>x. x \<noteq> []) (suffixes tail))"
| "removals_leftmost (Removal k ws v # rs) tail =
     (list_all (\<lambda>x. match_nav_props (x @ removal_text (Removal [] ws v) @ concat (map removal_text rs) @ tail) = None)
        (filter (\<lambda>x. x \<noteq> []) (suffixes k))
      \<and> removals_leftmost rs tail)"

text \<open>
  One match of the second regular expression: the text before it and the attributes of
  the tag (group 1), which have no \<open>>\<close>; the text in the input and in the output.
\<close>

datatype spine_tag = SpineTag (before_tag: str) (tag_attrs: str)

fun spine_text :: "spine_tag \<Rightarrow> str" where
  \<open>spine_text (SpineTag k g) = k @ u ''<spine'' @ g @ u ''>''\<close>

fun spine_patched :: "spine_tag \<Rightarrow> str" where
  \<open>spine_patched (SpineTag k g) = k @ u ''<spine'' @ g @ u '' toc="ncx">''\<close>

fun spine_ok :: "spine_tag \<Rightarrow> bool" where
  "spine_ok (SpineTag k g) = list_all (\<lambda>c. c \<noteq> 62) g"

text \<open>
  The tags are the matches that \<open>re.sub\<close> finds, from left to right: no match begins
  inside the text before a tag, and none inside the text after the last tag.
\<close>

fun spines_leftmost :: "spine_tag list \<Rightarrow> str \<Rightarrow> bool" where
  "spines_leftmost [] tail =
     list_all (\<lambda>x. match_spine x = None) (filter (\<lambda>x. x \<noteq> []) (suffixes tail))"
| "spines_leftmost (SpineTag k g # ts) tail =
     (list_all (\<lambda>x. match_spine (x @ spine_text (SpineTag [] g) @ concat (map spine_text ts) @ tail) = None)
        (filter (\<lambda>x. x \<noteq> []) (suffixes k))
      \<and> spines_leftmost ts tail)"

text \<open>
  A manifest item references a file named \<open>toc.ncx\<close>: some \<open>item\<close> element of the package
  document has an href whose last path component is \<open>toc.ncx\<close>.
\<close>

definition manifest_refs_toc_ncx :: "xml \<Rightarrow> bool" where
  "manifest_refs_toc_ncx opf_xml =
     list_ex (\<lambda>e. case get_attr e ([], u ''href'') of
                     None \<Rightarrow> False
                   | Some h \<Rightarrow> name (Path h) = u ''toc.ncx'')
       (xpath_all (ns_opf, u ''item'') opf_xml)"

section \<open>A sample publication\<close>

text \<open>
  The examples below use byte strings that are ASCII texts, so a byte string is written as
  the list of its byte values. On such bytes UTF-8 decoding is the identity, and so is
  encoding an ASCII text; \<open>decode_ascii\<close> rejects every other byte string. The parser of
  the examples is a table from the documents of the sample to their trees.
\<close>

definition decode_ascii :: "nat list \<Rightarrow> str option" where
  "decode_ascii b = (if list_all (\<lambda>c. c < 128) b then Some b else None)"

definition container_bytes :: "nat list" where
  \<open>container_bytes = u ''<container xmlns="urn:oasis:names:tc:opendocument:xmlns:container"><rootfiles><rootfile full-path="OEBPS/content.opf"/></rootfiles></container>''\<close>

definition container_tree :: xml where
  "container_tree =
     Elem (ns_n, u ''container'') []
       [Elem (ns_n, u ''rootfiles'') []
          [Elem (ns_n, u ''rootfile'') [(([], u ''full-path''), u ''OEBPS/content.opf'')] []]]"

definition opf_bytes :: "nat list" where
  \<open>opf_bytes = u ''<package xmlns="http://www.idpf.org/2007/opf" version="3.0"><metadata xmlns:dc="http://purl.org/dc/elements/1.1/"><dc:title>Book</dc:title></metadata><manifest><item id="nav" href="nav.xhtml" properties="nav"/><item id="c1" href="c1.xhtml"/></manifest><spine><itemref idref="c1"/></spine></package>''\<close>

definition opf_tree :: xml where
  "opf_tree =
     Elem (ns_opf, u ''package'') [(([], u ''version''), u ''3.0'')]
       [Elem (ns_opf, u ''metadata'') [] [Elem (ns_dc, u ''title'') [] [Text (u ''Book'')]],
        Elem (ns_opf, u ''manifest'') []
          [Elem (ns_opf, u ''item'')
             [(([], u ''id''), u ''nav''), (([], u ''href''), u ''nav.xhtml''),
              (([], u ''properties''), u ''nav'')] [],
           Elem (ns_opf, u ''item'') [(([], u ''id''), u ''c1''), (([], u ''href''), u ''c1.xhtml'')] []],
        Elem (ns_opf, u ''spine'') [] [Elem (ns_opf, u ''itemref'') [(([], u ''idref''), u ''c1'')] []]]"

definition nav_bytes :: "nat list" where
  \<open>nav_bytes = u ''<html xmlns="http://www.w3.org/1999/xhtml" xmlns:epub="http://www.idpf.org/2007/ops"><body><nav epub:type="toc"><ol><li><a href="c1.xhtml">Ch1</a></li><li><a href="c2.xhtml">Ch2</a><ol><li><a href="c2.xhtml#a">Ch2.1</a></li></ol></li></ol></nav></body></html>''\<close>

definition nav_li :: "string \<Rightarrow> string \<Rightarrow> xml list \<Rightarrow> xml" where
  "nav_li h t sub = Elem xhtml_li [] (Elem xhtml_a [(([], u ''href''), u h)] [Text (u t)] # sub)"

definition nav_tree :: xml where
  "nav_tree =
     Elem (ns_xhtml, u ''html'') []
       [Elem (ns_xhtml, u ''body'') []
          [Elem xhtml_nav [((ns_epub, u ''type''), u ''toc'')]
             [Elem xhtml_ol []
                [nav_li ''c1.xhtml'' ''Ch1'' [],
                 nav_li ''c2.xhtml'' ''Ch2'' [Elem xhtml_ol [] [nav_li ''c2.xhtml#a'' ''Ch2.1'' []]]]]]]"

text \<open>The package document after a conversion, as \<open>patch_opf\<close> leaves it.\<close>

definition opf2_bytes :: "nat list" where
  \<open>opf2_bytes = u ''<package xmlns="http://www.idpf.org/2007/opf" version="2.0"><metadata xmlns:dc="http://purl.org/dc/elements/1.1/"><dc:title>Book</dc:title></metadata><manifest><item id="nav" href="nav.xhtml"/><item id="c1" href="c1.xhtml"/><item id="ncx" href="toc.ncx" media-type="application/x-dtbncx+xml"/>\<newline></manifest><spine toc="ncx"><itemref idref="c1"/></spine></package>''\<close>

definition opf2_tree :: xml where
  "opf2_tree =
     Elem (ns_opf, u ''package'') [(([], u ''version''), u ''2.0'')]
       [Elem (ns_opf, u ''metadata'') [] [Elem (ns_dc, u ''title'') [] [Text (u ''Book'')]],
        Elem (ns_opf, u ''manifest'') []
          [Elem (ns_opf, u ''item'') [(([], u ''id''), u ''nav''), (([], u ''href''), u ''nav.xhtml'')] [],
           Elem (ns_opf, u ''item'') [(([], u ''id''), u ''c1''), (([], u ''href''), u ''c1.xhtml'')] [],
           Elem (ns_opf, u ''item'')
             [(([], u ''id''), u ''ncx''), (([], u ''href''), u ''toc.ncx''),
              (([], u ''media-type''), u ''application/x-dtbncx+xml'')] [],
           Text (u ''\<newline>'')],
        Elem (ns_opf, u ''spine'') [(([], u ''toc''), u ''ncx'')]
          [Elem (ns_opf, u ''itemref'') [(([], u ''idref''), u ''c1'')] []]]"

text \<open>A container descriptor that declares no root file.\<close>

definition container_empty_bytes :: "nat list" where
  \<open>container_empty_bytes = u ''<container xmlns="urn:oasis:names:tc:opendocument:xmlns:container"><rootfiles/></container>''\<close>

definition container_empty_tree :: xml where
  "container_empty_tree =
     Elem (ns_n, u ''container'') [] [Elem (ns_n, u ''rootfiles'') [] []]"

text \<open>
  A package document encoded in ISO-8859-1, as its XML declaration says: the parser reads
  it, and the byte 233 (the letter e with acute accent of the title) makes it invalid as
  UTF-8.
\<close>

definition opf_latin1_bytes :: "nat list" where
  \<open>opf_latin1_bytes = u ''<?xml version="1.0" encoding="ISO-8859-1"?><package xmlns="http://www.idpf.org/2007/opf" version="3.0"><metadata xmlns:dc="http://purl.org/dc/elements/1.1/"><dc:title>Caf'' @ [233] @ u ''</dc:title></metadata><manifest/><spine/></package>''\<close>

definition opf_latin1_tree :: xml where
  "opf_latin1_tree =
     Elem (ns_opf, u ''package'') [(([], u ''version''), u ''3.0'')]
       [Elem (ns_opf, u ''metadata'') [] [Elem (ns_dc, u ''title'') [] [Text (u ''Caf'' @ [233])]],
        Elem (ns_opf, u ''manifest'') [] [],
        Elem (ns_opf, u ''spine'') [] []]"

definition sample_lib :: "nat list lib" where
  "sample_lib =
     \<lparr>fromstring = map_of [(container_bytes, container_tree), (opf_bytes, opf_tree),
                           (nav_bytes, nav_tree), (opf2_bytes, opf2_tree),
                           (container_empty_bytes, container_empty_tree),
                           (opf_latin1_bytes, opf_latin1_tree)],
      decode = decode_ascii,
      encode = (\<lambda>s. s)\<rparr>"

definition sample_zip :: "nat list entry list" where
  "sample_zip =
     [\<lparr>filename = u ''mimetype'', data = u ''application/epub+zip'', compress_type = ZIP_DEFLATED\<rparr>,
      \<lparr>filename = u ''META-INF/container.xml'', data = container_bytes, compress_type = ZIP_DEFLATED\<rparr>,
      \<lparr>filename = u ''OEBPS/content.opf'', data = opf_bytes, compress_type = ZIP_DEFLATED\<rparr>,
      \<lparr>filename = u ''OEBPS/nav.xhtml'', data = nav_bytes, compress_type = ZIP_DEFLATED\<rparr>,
      \<lparr>filename = u ''OEBPS/c1.xhtml'', data = u ''<html/>'', compress_type = ZIP_STORED\<rparr>]"

definition sample_nav :: "nav_item list" where
  "sample_nav =
     [NavItem (u ''Ch1'') (Some (u ''c1.xhtml'')) [],
      NavItem (u ''Ch2'') (Some (u ''c2.xhtml''))
        [NavItem (u ''Ch2.1'') (Some (u ''c2.xhtml#a'')) []]]"

text \<open>
  The list of the navigation document of the sample, what it parses to when the
  navigation document lies in a directory \<open>text\<close> below the package document, and a
  list whose only anchor has no href.
\<close>

definition nav_ol :: xml where
  "nav_ol =
     Elem xhtml_ol []
       [nav_li ''c1.xhtml'' ''Ch1'' [],
        nav_li ''c2.xhtml'' ''Ch2'' [Elem xhtml_ol [] [nav_li ''c2.xhtml#a'' ''Ch2.1'' []]]]"

definition nav_in_text :: "nav_item list" where
  "nav_in_text =
     [NavItem (u ''Ch1'') (Some (u ''text/c1.xhtml'')) [],
      NavItem (u ''Ch2'') (Some (u ''text/c2.xhtml''))
        [NavItem (u ''Ch2.1'') (Some (u ''text/c2.xhtml#a'')) []]]"

definition ol_no_href :: xml where
  "ol_no_href = Elem xhtml_ol [] [Elem xhtml_li [] [Elem xhtml_a [] [Text (u ''Ch1'')]]]"

text \<open>The NCX document and the archive that converting the sample gives.\<close>

definition sample_ncx :: str where
  \<open>sample_ncx = u ''<?xml version="1.0" encoding="UTF-8"?>\<newline><ncx xmlns="http://www.daisy.org/z3986/2005/ncx/" version="2005-1">\<newline><head><meta name="dtb:uid" content="auto-gen"/><meta name="dtb:depth" content="3"/></head>\<newline><docTitle><text>Book</text></docTitle>\<newline><navMap>\<newline><navPoint id="nav_1" playOrder="1">\<newline>  <navLabel><text>Ch1</text></navLabel>\<newline>  <content src="c1.xhtml"/>\<newline></navPoint>\<newline><navPoint id="nav_2" playOrder="2">\<newline>  <navLabel><text>Ch2</text></navLabel>\<newline>  <content src="c2.xhtml"/>\<newline><navPoint id="nav_3" playOrder="3">\<newline>  <navLabel><text>Ch2.1</text></navLabel>\<newline>  <content src="c2.xhtml#a"/>\<newline></navPoint>\<newline></navPoint>\<newline></navMap></ncx>''\<close>

definition sample_out :: "nat list entry list" where
  "sample_out =
     [\<lparr>filename = u ''mimetype'', data = u ''application/epub+zip'', compress_type = ZIP_STORED\<rparr>,
      \<lparr>filename = u ''META-INF/container.xml'', data = container_bytes, compress_type = ZIP_DEFLATED\<rparr>,
      \<lparr>filename = u ''OEBPS/content.opf'', data = opf2_bytes, compress_type = ZIP_DEFLATED\<rparr>,
      \<lparr>filename = u ''OEBPS/nav.xhtml'', data = nav_bytes, compress_type = ZIP_DEFLATED\<rparr>,
      \<lparr>filename = u ''OEBPS/c1.xhtml'', data = u ''<html/>'', compress_type = ZIP_STORED\<rparr>,
      \<lparr>filename = u ''OEBPS/toc.ncx'', data = sample_ncx, compress_type = ZIP_DEFLATED\<rparr>]"

text \<open>Archives on which \<open>convert\<close> fails.\<close>

definition zip_no_container :: "nat list entry list" where
  "zip_no_container =
     [\<lparr>filename = u ''mimetype'', data = u ''application/epub+zip'', compress_type = ZIP_STORED\<rparr>]"

definition zip_bad_container :: "nat list entry list" where
  "zip_bad_container =
     [\<lparr>filename = u ''mimetype'', data = u ''application/epub+zip'', compress_type = ZIP_STORED\<rparr>,
      \<lparr>filename = u ''META-INF/container.xml'', data = u ''<container>'', compress_type = ZIP_DEFLATED\<rparr>]"

definition zip_no_rootfile :: "nat list entry list" where
  "zip_no_rootfile =
     [\<lparr>filename = u ''mimetype'', data = u ''application/epub+zip'', compress_type = ZIP_STORED\<rparr>,
      \<lparr>filename = u ''META-INF/container.xml'', data = container_empty_bytes, compress_type = ZIP_DEFLATED\<rparr>]"

definition zip_no_opf :: "nat list entry list" where
  "zip_no_opf =
     [\<lparr>filename = u ''mimetype'', data = u ''application/epub+zip'', compress_type = ZIP_STORED\<rparr>,
      \<lparr>filename = u ''META-INF/container.xml'', data = container_bytes, compress_type = ZIP_DEFLATED\<rparr>]"


text \<open>A list item with two anchors, and the same item with the first anchor only.\<close>

definition li_two_anchors :: xml where
  "li_two_anchors =
     Elem xhtml_li []
       [Elem xhtml_a [(([], u ''href''), u ''c1.xhtml'')] [Text (u ''Ch1'')],
        Text (u '' / ''),
        Elem xhtml_a [(([], u ''href''), u ''notes.xhtml'')] [Text (u ''Notes'')]]"

definition li_first_anchor :: xml where
  "li_first_anchor =
     Elem xhtml_li [] [Elem xhtml_a [(([], u ''href''), u ''c1.xhtml'')] [Text (u ''Ch1'')], Text (u '' / '')]"

text \<open>
  Lists of three items whose second item is the one with two anchors, or the one with the
  first anchor only.
\<close>

definition li_plain :: "string \<Rightarrow> string \<Rightarrow> xml" where
  "li_plain h t = Elem xhtml_li [] [Elem xhtml_a [(([], u ''href''), u h)] [Text (u t)]]"

definition ol_three_items :: xml where
  "ol_three_items = Elem xhtml_ol [] [li_plain ''c0.xhtml'' ''Ch0'', li_two_anchors, li_plain ''c2.xhtml'' ''Ch2'']"

definition ol_three_first :: xml where
  "ol_three_first = Elem xhtml_ol [] [li_plain ''c0.xhtml'' ''Ch0'', li_first_anchor, li_plain ''c2.xhtml'' ''Ch2'']"

text \<open>The package document of the sample after the first two substitutions.\<close>

definition opf_stripped :: str where
  \<open>opf_stripped = u ''<package xmlns="http://www.idpf.org/2007/opf" version="2.0"><metadata xmlns:dc="http://purl.org/dc/elements/1.1/"><dc:title>Book</dc:title></metadata><manifest><item id="nav" href="nav.xhtml"/><item id="c1" href="c1.xhtml"/></manifest><spine><itemref idref="c1"/></spine></package>''\<close>

text \<open>
  A package document whose attributes are written with single quotes, and what the
  patcher makes of it.
\<close>

definition sq_opf_text :: str where
  \<open>sq_opf_text = u ''<package xmlns="http://www.idpf.org/2007/opf" version='3.0'><manifest><item id="nav" href="nav.xhtml" properties='nav'/></manifest><spine><itemref idref="nav"/></spine></package>''\<close>

definition sq_opf_patched :: str where
  \<open>sq_opf_patched = u ''<package xmlns="http://www.idpf.org/2007/opf" version='3.0'><manifest><item id="nav" href="nav.xhtml" properties='nav'/><item id="ncx" href="toc.ncx" media-type="application/x-dtbncx+xml"/>\<newline></manifest><spine toc="ncx"><itemref idref="nav"/></spine></package>''\<close>

text \<open>
  A package document that mentions \<open>toc.ncx\<close> in its title only, its parsed tree, and
  what the patcher makes of it.
\<close>

definition titled_opf_text :: str where
  \<open>titled_opf_text = u ''<package xmlns="http://www.idpf.org/2007/opf" version="3.0"><metadata xmlns:dc="http://purl.org/dc/elements/1.1/"><dc:title>The toc.ncx file</dc:title></metadata><manifest><item id="c1" href="c1.xhtml"/></manifest><spine><itemref idref="c1"/></spine></package>''\<close>

definition titled_opf_tree :: xml where
  "titled_opf_tree =
     Elem (ns_opf, u ''package'') [(([], u ''version''), u ''3.0'')]
       [Elem (ns_opf, u ''metadata'') [] [Elem (ns_dc, u ''title'') [] [Text (u ''The toc.ncx file'')]],
        Elem (ns_opf, u ''manifest'') []
          [Elem (ns_opf, u ''item'') [(([], u ''id''), u ''c1''), (([], u ''href''), u ''c1.xhtml'')] []],
        Elem (ns_opf, u ''spine'') [] [Elem (ns_opf, u ''itemref'') [(([], u ''idref''), u ''c1'')] []]]"

definition titled_opf_patched :: str where
  \<open>titled_opf_patched = u ''<package xmlns="http://www.idpf.org/2007/opf" version="2.0"><metadata xmlns:dc="http://purl.org/dc/elements/1.1/"><dc:title>The toc.ncx file</dc:title></metadata><manifest><item id="c1" href="c1.xhtml"/></manifest><spine><itemref idref="c1"/></spine></package>''\<close>

text \<open>
  The NCX document of a publication without navigation items, and the archive that
  converting the converted sample gives.
\<close>

definition sample_ncx_empty :: str where
  \<open>sample_ncx_empty = u ''<?xml version="1.0" encoding="UTF-8"?>\<newline><ncx xmlns="http://www.daisy.org/z3986/2005/ncx/" version="2005-1">\<newline><head><meta name="dtb:uid" content="auto-gen"/><meta name="dtb:depth" content="3"/></head>\<newline><docTitle><text>Book</text></docTitle>\<newline><navMap>\<newline></navMap></ncx>''\<close>

definition sample_out2 :: "nat list entry list" where
  "sample_out2 =
     [\<lparr>filename = u ''mimetype'', data = u ''application/epub+zip'', compress_type = ZIP_STORED\<rparr>,
      \<lparr>filename = u ''META-INF/container.xml'', data = container_bytes, compress_type = ZIP_DEFLATED\<rparr>,
      \<lparr>filename = u ''OEBPS/content.opf'', data = opf2_bytes, compress_type = ZIP_DEFLATED\<rparr>,
      \<lparr>filename = u ''OEBPS/nav.xhtml'', data = nav_bytes, compress_type = ZIP_DEFLATED\<rparr>,
      \<lparr>filename = u ''OEBPS/c1.xhtml'', data = u ''<html/>'', compress_type = ZIP_STORED\<rparr>,
      \<lparr>filename = u ''OEBPS/toc.ncx'', data = sample_ncx, compress_type = ZIP_DEFLATED\<rparr>,
      \<lparr>filename = u ''OEBPS/toc.ncx'', data = sample_ncx_empty, compress_type = ZIP_DEFLATED\<rparr>]"

text \<open>The archive that converting once more gives.\<close>

definition sample_out3 :: "nat list entry list" where
  "sample_out3 =
     [\<lparr>filename = u ''mimetype'', data = u ''application/epub+zip'', compress_type = ZIP_STORED\<rparr>,
      \<lparr>filename = u ''META-INF/container.xml'', data = container_bytes, compress_type = ZIP_DEFLATED\<rparr>,
      \<lparr>filename = u ''OEBPS/content.opf'', data = opf2_bytes, compress_type = ZIP_DEFLATED\<rparr>,
      \<lparr>filename = u ''OEBPS/nav.xhtml'', data = nav_bytes, compress_type = ZIP_DEFLATED\<rparr>,
      \<lparr>filename = u ''OEBPS/c1.xhtml'', data = u ''<html/>'', compress_type = ZIP_STORED\<rparr>,
      \<lparr>filename = u ''OEBPS/toc.ncx'', data = sample_ncx_empty, compress_type = ZIP_DEFLATED\<rparr>,
      \<lparr>filename = u ''OEBPS/toc.ncx'', data = sample_ncx_empty, compress_type = ZIP_DEFLATED\<rparr>,
      \<lparr>filename = u ''OEBPS/toc.ncx'', data = sample_ncx_empty, compress_type = ZIP_DEFLATED\<rparr>]"

section \<open>Evaluating the sample\<close>

lemmas xml_defs = xpath_all_def xpath_child_def xhtml_li_def xhtml_a_def xhtml_ol_def xhtml_nav_def
  ns_n_def ns_opf_def ns_xhtml_def ns_epub_def ns_dc_def has_nav_property_def get_metadata_def
  List.map_filter_def

lemmas path_defs = Path_def path_parts_def parent_def name_def joinpath_def as_posix_def

lemma docs_distinct:
  "container_bytes \<noteq> opf_bytes" "container_bytes \<noteq> nav_bytes"
  "container_bytes \<noteq> opf2_bytes" "container_bytes \<noteq> container_empty_bytes"
  "container_bytes \<noteq> opf_latin1_bytes"
  "opf_bytes \<noteq> container_bytes" "opf_bytes \<noteq> nav_bytes"
  "opf_bytes \<noteq> opf2_bytes" "opf_bytes \<noteq> container_empty_bytes"
  "opf_bytes \<noteq> opf_latin1_bytes"
  "nav_bytes \<noteq> container_bytes" "nav_bytes \<noteq> opf_bytes"
  "nav_bytes \<noteq> opf2_bytes" "nav_bytes \<noteq> container_empty_bytes"
  "nav_bytes \<noteq> opf_latin1_bytes"
  "opf2_bytes \<noteq> container_bytes" "opf2_bytes \<noteq> opf_bytes"
  "opf2_bytes \<noteq> nav_bytes" "opf2_bytes \<noteq> container_empty_bytes"
  "opf2_bytes \<noteq> opf_latin1_bytes"
  "container_empty_bytes \<noteq> container_bytes" "container_empty_bytes \<noteq> opf_bytes"
  "container_empty_bytes \<noteq> nav_bytes" "container_empty_bytes \<noteq> opf2_bytes"
  "container_empty_bytes \<noteq> opf_latin1_bytes"
  "opf_latin1_bytes \<noteq> container_bytes" "opf_latin1_bytes \<noteq> opf_bytes"
  "opf_latin1_bytes \<noteq> nav_bytes" "opf_latin1_bytes \<noteq> opf2_bytes"
  "opf_latin1_bytes \<noteq> container_empty_bytes"
  by (simp_all add: container_bytes_def opf_bytes_def nav_bytes_def opf2_bytes_def
      container_empty_bytes_def opf_latin1_bytes_def u_def)

lemma read_package_sample:
  "read_package sample_lib sample_zip = Inr (Path (u ''OEBPS/content.opf''), u ''Book'', [], sample_nav)"
  by (simp add: docs_distinct read_package_def locate_opf_def read_nav_points_def read_xml_def
      zip_read_def sample_zip_def sample_lib_def container_tree_def opf_tree_def nav_tree_def
      nav_li_def sample_nav_def xml_defs path_defs nav_src_def strip_def isspace_def u_def Let_def)

section \<open>Play orders\<close>

lemma build_render:
  "build_ncx_points k items = (render_points (number_points k items), k + count_items items)"
proof (induction k items rule: build_ncx_points.induct)
  case (1 po)
  show ?case by simp
next
  case (2 po t s cs rest)
  have sub: "(if cs \<noteq> [] then build_ncx_points (po + 1) cs else ([], po + 1))
      = (render_points (number_points (po + 1) cs), po + 1 + count_items cs)"
  proof (cases "cs = []")
    case True
    then show ?thesis by simp
  next
    case False
    then show ?thesis using "2.IH"(1) [OF refl refl refl refl refl False] by simp
  qed
  have following: "build_ncx_points (po + 1 + count_items cs) rest
      = (render_points (number_points (po + 1 + count_items cs) rest),
         po + 1 + count_items cs + count_items rest)"
    using "2.IH"(2) [OF refl refl refl refl refl refl sub [symmetric] refl] by simp
  show ?case
    unfolding build_ncx_points.simps Let_def sub prod.case following by simp
qed

lemma erase_number: "erase_points (number_points k items) = items"
  by (induction k items rule: number_points.induct) auto

lemma orders_number:
  "map order (flatten_points (number_points k items)) = [k ..< k + count_items items]"
proof (induction k items rule: number_points.induct)
  case (1 k)
  show ?case by simp
next
  case (2 k t s cs rest)
  have "[k ..< k + (1 + count_items cs + count_items rest)]
      = k # [k + 1 ..< k + 1 + count_items cs]
          @ [k + 1 + count_items cs ..< k + 1 + count_items cs + count_items rest]"
  proof -
    have a: "[k ..< (k + 1) + count_items cs] = [k ..< k + 1] @ [k + 1 ..< k + 1 + count_items cs]"
      by (rule upt_add_eq_append) simp
    have b: "[k ..< (k + 1 + count_items cs) + count_items rest]
        = [k ..< k + 1 + count_items cs]
          @ [k + 1 + count_items cs ..< k + 1 + count_items cs + count_items rest]"
      by (rule upt_add_eq_append) simp
    have c: "k + (1 + count_items cs + count_items rest) = (k + 1 + count_items cs) + count_items rest"
      by simp
    show ?thesis unfolding c b a by simp
  qed
  with 2 show ?case by simp
qed

lemma order_range:
  assumes "d \<in> set (flatten_points (number_points k items))"
  shows "k \<le> order d \<and> order d < k + count_items items"
proof -
  from assms have "order d \<in> set (map order (flatten_points (number_points k items)))"
    by simp
  then show ?thesis
    unfolding orders_number by simp
qed

lemma parents_first_number: "parents_first (number_points k items)"
proof (induction k items rule: number_points.induct)
  case (1 k)
  show ?case by simp
next
  case (2 k t s cs rest)
  have "list_all (\<lambda>d. k < order d) (flatten_points (number_points (k + 1) cs))"
    unfolding list_all_iff using order_range [of _ "k + 1" cs] by fastforce
  with 2 show ?case by simp
qed

lemma order_head_number: "q \<in> set (number_points k items) \<Longrightarrow> k \<le> order q"
proof (induction k items rule: number_points.induct)
  case (1 k)
  then show ?case by simp
next
  case (2 k t s cs rest)
  then show ?case by auto
qed

lemma siblings_later_number: "siblings_later (number_points k items)"
proof (induction k items rule: number_points.induct)
  case (1 k)
  show ?case by simp
next
  case (2 k t s cs rest)
  have "list_all (\<lambda>q. list_all (\<lambda>d. order d < order q) (flatten_points (number_points (k + 1) cs)))
          (number_points (k + 1 + count_items cs) rest)"
    unfolding list_all_iff
    using order_range [of _ "k + 1" cs] order_head_number [of _ "k + 1 + count_items cs" rest]
    by fastforce
  with 2 show ?case by simp
qed

lemma convert_reset: "convert L self zin = convert L init zin"
proof -
  have "self\<lparr>play_order := 1\<rparr> = init\<lparr>play_order := 1\<rparr>"
    by (simp add: init_def)
  then show ?thesis
    unfolding convert_def by (simp only:)
qed

lemma convert_after_read:
  assumes "read_package L zin = Inr (opf_path, title, author, items)"
  shows "\<exists>r out. convert L self zin = (r, \<lparr>play_order = 1 + count_items items\<rparr>, Some out)
     \<and> (r = Inr () \<longrightarrow>
          (\<exists>zout. out = zout @ [\<lparr>filename = as_posix (joinpath (parent opf_path) (u ''toc.ncx'')),
                data = encode L (ncx_document title author (render_points (number_points 1 items))),
                compress_type = ZIP_DEFLATED\<rparr>]))"
  using assms
  by (simp add: convert_def build_render Let_def split: prod.splits option.splits sum.splits)

text \<open>
  C1. For every navigation tree, the text that \<open>_build_ncx_points\<close> produces from the
  counter value 1 is the rendering of the tree numbered in pre-order: the numbered tree
  has the items of the input (\<open>erase_points\<close>), its play orders read in pre-order,
  depth first, are exactly \<open>1, ..., N\<close> for the total count \<open>N\<close> of items, every point
  is numbered below all its descendants, and all descendants of a point are numbered
  below its later siblings; the counter ends at \<open>N + 1\<close>. A call of \<open>convert\<close> does not
  depend on the counter it finds (it starts again from 1): when the documents can be
  read, the converter ends with the counter \<open>N + 1\<close> for the navigation tree of this
  file, and a successful call has written, as the last entry, the NCX document with
  the points numbered from 1.
\<close>

theorem play_order_preorder:
  "build_ncx_points 1 items = (render_points (number_points 1 items), 1 + count_items items)
   \<and> erase_points (number_points 1 items) = items
   \<and> map order (flatten_points (number_points 1 items)) = [1 ..< 1 + count_items items]
   \<and> parents_first (number_points 1 items)
   \<and> siblings_later (number_points 1 items)
   \<and> convert L self zin = convert L init zin
   \<and> (read_package L zin = Inr (opf_path, title, author, items) \<longrightarrow>
        (\<exists>r out. convert L self zin = (r, \<lparr>play_order = 1 + count_items items\<rparr>, Some out)
          \<and> (r = Inr () \<longrightarrow>
               (\<exists>zout. out = zout @ [\<lparr>filename = as_posix (joinpath (parent opf_path) (u ''toc.ncx'')),
                     data = encode L (ncx_document title author (render_points (number_points 1 items))),
                     compress_type = ZIP_DEFLATED\<rparr>]))))"
  using build_render [of 1 items] erase_number [of 1 items] orders_number [of 1 items]
    parents_first_number [of 1 items] siblings_later_number [of 1 items]
    convert_reset [of L self zin] convert_after_read [of L zin opf_path title author items self]
  by blast

theorem play_order_preorder_witness:
  "read_package sample_lib sample_zip = Inr (Path (u ''OEBPS/content.opf''), u ''Book'', [], sample_nav)
   \<and> map order (flatten_points (number_points 1 sample_nav)) = [1, 2, 3]
   \<and> (\<exists>r out. convert sample_lib \<lparr>play_order = 7\<rparr> sample_zip = (r, \<lparr>play_order = 4\<rparr>, Some out))"
proof -
  have n: "count_items sample_nav = 3"
    by (simp add: sample_nav_def)
  have upt: "[1 ..< 1 + (3::nat)] = [1, 2, 3]"
    by (simp add: upt_rec)
  note T = play_order_preorder [of sample_nav sample_lib "\<lparr>play_order = 7\<rparr>" sample_zip
      "Path (u ''OEBPS/content.opf'')" "u ''Book''" "[]"]
  from T have "map order (flatten_points (number_points 1 sample_nav)) = [1 ..< 1 + count_items sample_nav]"
    by blast
  then have orders: "map order (flatten_points (number_points 1 sample_nav)) = [1, 2, 3]"
    unfolding n upt .
  from T read_package_sample
  have "\<exists>r out. convert sample_lib \<lparr>play_order = 7\<rparr> sample_zip
      = (r, \<lparr>play_order = 1 + count_items sample_nav\<rparr>, Some out)"
    by blast
  then have counter: "\<exists>r out. convert sample_lib \<lparr>play_order = 7\<rparr> sample_zip
      = (r, \<lparr>play_order = 4\<rparr>, Some out)"
    unfolding n by simp
  from read_package_sample orders counter show ?thesis
    by blast
qed

section \<open>The archive written by \<open>convert\<close>\<close>


lemma zip_read_name:
  assumes "n \<in> set (map filename zin)"
  shows "\<exists>e \<in> set zin. filename e = n \<and> zip_read zin n = Inr (data e)"
proof -
  from assms have ne: "filter (\<lambda>x. filename x = n) zin \<noteq> []"
    by (auto simp: filter_empty_conv)
  then have "last (filter (\<lambda>x. filename x = n) zin) \<in> set (filter (\<lambda>x. filename x = n) zin)"
    by (rule last_in_set)
  with ne show ?thesis
    by (auto simp: zip_read_def split: list.splits)
qed

lemma zip_read_present:
  assumes "n \<in> set (map filename zin)"
  shows "\<exists>d. zip_read zin n = Inr d"
  using zip_read_name [OF assms] by blast

lemma zip_read_distinct:
  assumes "distinct (map filename zin)" and "e \<in> set zin"
  shows "zip_read zin (filename e) = Inr (data e)"
proof -
  from assms(2) obtain e' where e': "e' \<in> set zin" "filename e' = filename e"
      "zip_read zin (filename e) = Inr (data e')"
    using zip_read_name [of "filename e" zin] by auto
  from assms(1) e'(1,2) assms(2) have "e' = e"
    by (meson distinct_map inj_onD)
  with e'(3) show ?thesis by simp
qed

lemma copy_items_extends:
  "\<exists>ws. snd (copy_items L zin opf items zout) = zout @ ws"
proof (induction items arbitrary: zout)
  case Nil
  show ?case by simp
next
  case (Cons item items)
  show ?case
    using Cons.IH [of zout]
      Cons.IH [of "zout @ [\<lparr>filename = filename item, data = encode L (patch_opf t), compress_type = ZIP_DEFLATED\<rparr>]" for t]
      Cons.IH [of "zout @ [item\<lparr>data := d\<rparr>]" for d]
    by (auto split: sum.splits option.splits)
qed

lemma copy_items_success:
  assumes "copy_items L zin opf items zout = (None, zout')"
  shows "\<exists>ws. zout' = zout @ ws
     \<and> map (out_entry L zin opf) (filter (\<lambda>e. filename e \<noteq> u ''mimetype'') items) = map Some ws"
  using assms
proof (induction items arbitrary: zout)
  case Nil
  then show ?case by simp
next
  case (Cons item items)
  show ?case
  proof (cases "filename item = u ''mimetype''")
    case True
    with Cons show ?thesis by simp
  next
    case False
    from Cons.prems False obtain d where d: "zip_read zin (filename item) = Inr d"
      by (auto split: sum.splits)
    show ?thesis
    proof (cases "filename item = opf")
      case True
      with Cons.prems False d obtain t where t: "decode L d = Some t"
        by (auto split: option.splits)
      let ?w = "\<lparr>filename = filename item, data = encode L (patch_opf t), compress_type = ZIP_DEFLATED\<rparr>"
      from Cons.prems False d True t have "copy_items L zin opf items (zout @ [?w]) = (None, zout')"
        by simp
      from Cons.IH [OF this] obtain ws where ws: "zout' = (zout @ [?w]) @ ws"
          "map (out_entry L zin opf) (filter (\<lambda>e. filename e \<noteq> u ''mimetype'') items) = map Some ws"
        by blast
      have "out_entry L zin opf item = Some ?w"
        using d True t by (simp add: out_entry_def)
      with ws False show ?thesis
        by (intro exI [of _ "?w # ws"]) simp
    next
      case notopf: False
      let ?w = "item\<lparr>data := d\<rparr>"
      from Cons.prems False d notopf have "copy_items L zin opf items (zout @ [?w]) = (None, zout')"
        by simp
      from Cons.IH [OF this] obtain ws where ws: "zout' = (zout @ [?w]) @ ws"
          "map (out_entry L zin opf) (filter (\<lambda>e. filename e \<noteq> u ''mimetype'') items) = map Some ws"
        by blast
      have "out_entry L zin opf item = Some ?w"
        using d notopf by (simp add: out_entry_def)
      with ws False show ?thesis
        by (intro exI [of _ "?w # ws"]) simp
    qed
  qed
qed


lemma convert_read_failed:
  assumes "read_package L zin = Inl e"
  shows "convert L self zin = (Inl e, \<lparr>play_order = 1\<rparr>, None)"
  using assms by (simp add: convert_def)

lemma convert_read_ok:
  assumes "read_package L zin = Inr (opf_path, title, author, items)"
  shows "convert L self zin =
     (case copy_items L zin (as_posix opf_path) zin (mimetype_entry zin) of
        (Some e, zout) \<Rightarrow> (Inl e, \<lparr>play_order = 1 + count_items items\<rparr>, Some zout)
      | (None, zout) \<Rightarrow>
          (Inr (), \<lparr>play_order = 1 + count_items items\<rparr>,
           Some (zout @ [ncx_entry L opf_path title author items])))"
proof (cases "u ''mimetype'' \<in> set (map filename zin)")
  case True
  then obtain d where "zip_read zin (u ''mimetype'') = Inr d"
    using zip_read_present by blast
  with True show ?thesis
    unfolding convert_def mimetype_entry_def ncx_entry_def
    by (simp add: assms build_render Let_def split: prod.splits option.splits)
next
  case False
  then show ?thesis
    unfolding convert_def mimetype_entry_def ncx_entry_def
    by (simp add: assms build_render Let_def split: prod.splits option.splits)
qed

lemma convert_success:
  assumes "convert L self zin = (Inr (), self', Some zout)"
  shows "\<exists>opf_path title author items ws.
      read_package L zin = Inr (opf_path, title, author, items)
      \<and> map (out_entry L zin (as_posix opf_path)) (filter (\<lambda>e. filename e \<noteq> u ''mimetype'') zin) = map Some ws
      \<and> zout = mimetype_entry zin @ ws @ [ncx_entry L opf_path title author items]"
proof (cases "read_package L zin")
  case (Inl e)
  from assms show ?thesis
    unfolding convert_read_failed [OF Inl] by simp
next
  case (Inr x)
  obtain opf_path title author items where x: "x = (opf_path, title, author, items)"
    by (cases x) auto
  note rp = Inr [unfolded x]
  obtain r z1 where c: "copy_items L zin (as_posix opf_path) zin (mimetype_entry zin) = (r, z1)"
    by (cases "copy_items L zin (as_posix opf_path) zin (mimetype_entry zin)")
  from assms have r: "r = None" and zout: "zout = z1 @ [ncx_entry L opf_path title author items]"
    unfolding convert_read_ok [OF rp] c by (cases r; simp)+
  from copy_items_success [OF c [unfolded r]] obtain ws where
    "z1 = mimetype_entry zin @ ws"
    "map (out_entry L zin (as_posix opf_path)) (filter (\<lambda>e. filename e \<noteq> u ''mimetype'') zin) = map Some ws"
    by blast
  with rp zout show ?thesis by simp
qed

lemma mimetype_entry_names:
  "map filename (mimetype_entry zin) = (if u ''mimetype'' \<in> set (map filename zin) then [u ''mimetype''] else [])"
proof (cases "u ''mimetype'' \<in> set (map filename zin)")
  case True
  then obtain d where "zip_read zin (u ''mimetype'') = Inr d"
    using zip_read_present by blast
  with True show ?thesis by (simp add: mimetype_entry_def)
next
  case False
  then show ?thesis by (simp add: mimetype_entry_def)
qed

lemma out_entry_filename: "out_entry L zin opf e = Some w \<Longrightarrow> filename w = filename e"
  by (auto simp: out_entry_def split: sum.splits if_splits option.splits)

lemma out_entries_names:
  "map (out_entry L zin opf) es = map Some ws \<Longrightarrow> map filename ws = map filename es"
proof (induction es arbitrary: ws)
  case Nil
  then show ?case by simp
next
  case (Cons e es)
  then obtain w ws' where ws: "ws = w # ws'" by (cases ws) auto
  with Cons.prems have "out_entry L zin opf e = Some w" "map (out_entry L zin opf) es = map Some ws'"
    by simp_all
  with Cons.IH [of ws'] ws show ?case
    by (simp add: out_entry_filename)
qed

lemma convert_names:
  assumes "convert L self zin = (Inr (), self', Some zout)"
    and "read_package L zin = Inr (opf_path, title, author, items)"
  shows "map filename zout =
      (if u ''mimetype'' \<in> set (map filename zin) then [u ''mimetype''] else [])
      @ filter (\<lambda>n. n \<noteq> u ''mimetype'') (map filename zin)
      @ [as_posix (joinpath (parent opf_path) (u ''toc.ncx''))]"
proof -
  from convert_success [OF assms(1)] assms(2) obtain ws where
    ws: "map (out_entry L zin (as_posix opf_path)) (filter (\<lambda>e. filename e \<noteq> u ''mimetype'') zin) = map Some ws"
    and zout: "zout = mimetype_entry zin @ ws @ [ncx_entry L opf_path title author items]"
    by auto
  have "map filename ws = filter (\<lambda>n. n \<noteq> u ''mimetype'') (map filename zin)"
    using out_entries_names [OF ws] by (simp add: filter_map comp_def)
  with zout show ?thesis
    by (simp add: mimetype_entry_names ncx_entry_def)
qed

lemmas eval_text = u_def match_nav_props_def match_spine_def isspace_def item_ncx_def Let_def
  sublist_Cons_right

lemma opf_sample_stripped:
  \<open>sub_nav_props (replace_str (u ''version="3.0"'') (u ''version="2.0"'') opf_bytes) = opf_stripped\<close>
proof -
  have s1: \<open>replace_str (u ''version="3.0"'') (u ''version="2.0"'') opf_bytes
      = u ''<package xmlns="http://www.idpf.org/2007/opf" version="2.0"><metadata xmlns:dc="http://purl.org/dc/elements/1.1/"><dc:title>Book</dc:title></metadata><manifest><item id="nav" href="nav.xhtml" properties="nav"/><item id="c1" href="c1.xhtml"/></manifest><spine><itemref idref="c1"/></spine></package>''\<close>
    by (simp add: opf_bytes_def eval_text)
  have s2: \<open>sub_nav_props (u ''<package xmlns="http://www.idpf.org/2007/opf" version="2.0"><metadata xmlns:dc="http://purl.org/dc/elements/1.1/"><dc:title>Book</dc:title></metadata><manifest><item id="nav" href="nav.xhtml" properties="nav"/><item id="c1" href="c1.xhtml"/></manifest><spine><itemref idref="c1"/></spine></package>'')
      = opf_stripped\<close>
    by (simp add: opf_stripped_def eval_text)
  show ?thesis
    unfolding s1 s2 ..
qed

lemma opf_sample_no_toc: \<open>\<not> sublist (u ''toc.ncx'') opf_stripped\<close>
  by (simp add: opf_stripped_def eval_text)

lemma opf_sample_inserted:
  \<open>sub_spine_toc (replace_str (u ''</manifest>'') (item_ncx @ u ''\<newline></manifest>'') opf_stripped) = opf2_bytes\<close>
proof -
  have s4: \<open>replace_str (u ''</manifest>'') (item_ncx @ u ''\<newline></manifest>'') opf_stripped
      = u ''<package xmlns="http://www.idpf.org/2007/opf" version="2.0"><metadata xmlns:dc="http://purl.org/dc/elements/1.1/"><dc:title>Book</dc:title></metadata><manifest><item id="nav" href="nav.xhtml"/><item id="c1" href="c1.xhtml"/><item id="ncx" href="toc.ncx" media-type="application/x-dtbncx+xml"/>\<newline></manifest><spine><itemref idref="c1"/></spine></package>''\<close>
    by (simp add: opf_stripped_def eval_text)
  have s5: \<open>sub_spine_toc (u ''<package xmlns="http://www.idpf.org/2007/opf" version="2.0"><metadata xmlns:dc="http://purl.org/dc/elements/1.1/"><dc:title>Book</dc:title></metadata><manifest><item id="nav" href="nav.xhtml"/><item id="c1" href="c1.xhtml"/><item id="ncx" href="toc.ncx" media-type="application/x-dtbncx+xml"/>\<newline></manifest><spine><itemref idref="c1"/></spine></package>'')
      = opf2_bytes\<close>
    by (simp add: opf2_bytes_def eval_text)
  show ?thesis
    unfolding s4 s5 ..
qed

lemma patch_opf_sample: "patch_opf opf_bytes = opf2_bytes"
  using opf_sample_no_toc
  by (simp only: patch_opf_def Let_def opf_sample_stripped opf_sample_inserted simp_thms if_True)

lemma decode_opf_sample: "decode_ascii opf_bytes = Some opf_bytes"
  by (simp add: decode_ascii_def opf_bytes_def u_def)

lemma ncx_sample:
  "ncx_document (u ''Book'') [] (fst (build_ncx_points 1 sample_nav)) = sample_ncx"
  by (simp add: ncx_document_def sample_nav_def sample_ncx_def fmt_opt_def str_nat.simps u_def Let_def)

lemma convert_sample:
  "convert sample_lib self sample_zip = (Inr (), \<lparr>play_order = 4\<rparr>, Some sample_out)"
proof -
  have n: "count_items sample_nav = 3"
    by (simp add: sample_nav_def)
  have path: "as_posix (Path (u ''OEBPS/content.opf'')) = u ''OEBPS/content.opf''"
    "as_posix (joinpath (parent (Path (u ''OEBPS/content.opf''))) (u ''toc.ncx'')) = u ''OEBPS/toc.ncx''"
    by (simp_all add: path_defs u_def Let_def)
  have m: "mimetype_entry sample_zip
      = [\<lparr>filename = u ''mimetype'', data = u ''application/epub+zip'', compress_type = ZIP_STORED\<rparr>]"
    by (simp add: mimetype_entry_def zip_read_def sample_zip_def u_def)
  have c: "copy_items sample_lib sample_zip (u ''OEBPS/content.opf'') sample_zip
        [\<lparr>filename = u ''mimetype'', data = u ''application/epub+zip'', compress_type = ZIP_STORED\<rparr>]
      = (None, butlast sample_out)"
    using decode_opf_sample patch_opf_sample
    by (simp add: sample_zip_def sample_out_def sample_lib_def zip_read_def u_def)
  show ?thesis
    unfolding convert_read_ok [OF read_package_sample] path m c ncx_entry_def ncx_sample n
    by (simp add: sample_out_def sample_lib_def)
qed

section \<open>Entries kept, and the entry \<open>mimetype\<close>\<close>

lemma filter_count_names:
  "length (filter (\<lambda>x. filename x = n) z) = count (mset (map filename z)) n"
  by (induction z) auto

lemma zip_read_unique:
  assumes "count (mset (map filename z)) n = 1" and "w \<in> set z" and "filename w = n"
  shows "zip_read z n = Inr (data w)"
proof -
  let ?f = "filter (\<lambda>x. filename x = n) z"
  from assms(1) have "length ?f = 1"
    by (simp add: filter_count_names)
  then obtain x where x: "?f = [x]"
    by (cases ?f) auto
  from assms(2,3) have "w \<in> set ?f" by simp
  with x have "x = w" by simp
  with x show ?thesis
    by (simp add: zip_read_def)
qed

lemma out_entries_rel:
  assumes "map (out_entry L zin opf) es = map Some ws"
    and "distinct (map filename zin)" and "set es \<subseteq> set zin"
  shows "list_all2 (\<lambda>e w. if filename e = opf
            then (\<exists>t. decode L (data e) = Some t
                   \<and> w = \<lparr>filename = filename e, data = encode L (patch_opf t), compress_type = ZIP_DEFLATED\<rparr>)
            else w = e) es ws"
  using assms
proof (induction es arbitrary: ws)
  case Nil
  then show ?case by simp
next
  case (Cons e es)
  then obtain w ws' where ws: "ws = w # ws'" by (cases ws) auto
  with Cons.prems have w: "out_entry L zin opf e = Some w"
    and rest: "map (out_entry L zin opf) es = map Some ws'"
    by simp_all
  from Cons.prems(3) have e: "e \<in> set zin" and sub: "set es \<subseteq> set zin" by simp_all
  have rd: "zip_read zin (filename e) = Inr (data e)"
    using zip_read_distinct [OF Cons.prems(2) e] .
  have "if filename e = opf
        then (\<exists>t. decode L (data e) = Some t
               \<and> w = \<lparr>filename = filename e, data = encode L (patch_opf t), compress_type = ZIP_DEFLATED\<rparr>)
        else w = e"
    using w rd by (auto simp: out_entry_def split: option.splits if_splits)
  with Cons.IH [OF rest Cons.prems(2) sub] ws show ?case by simp
qed

text \<open>
  C3, amended. For every archive with distinct entry names that \<open>convert\<close> converts
  successfully, the output is, in this order: the entry \<open>mimetype\<close> when the input has
  one; for every other entry of the input, in the order of the input, the patched package
  document when the entry is the package document, and the entry itself, unchanged,
  otherwise; and one new entry, \<open>toc.ncx\<close> in the directory of the package document.
  So every entry of the input whose name is not the path of the package document is in
  the output under the same name and with the same bytes; reading the output under such
  a name, when it is not the name of the new \<open>toc.ncx\<close>, gives the bytes of the input;
  and the names of the output are the names of the input and one more.
\<close>

theorem entries_preserved:
  assumes "convert L self zin = (Inr (), self', Some zout)"
    and "read_package L zin = Inr (opf_path, title, author, items)"
    and "distinct (map filename zin)"
  shows "(\<exists>ws. zout = mimetype_entry zin @ ws @ [ncx_entry L opf_path title author items]
           \<and> list_all2 (\<lambda>e w. if filename e = as_posix opf_path
                   then (\<exists>t. decode L (data e) = Some t
                          \<and> w = \<lparr>filename = filename e, data = encode L (patch_opf t),
                                 compress_type = ZIP_DEFLATED\<rparr>)
                   else w = e)
                (filter (\<lambda>e. filename e \<noteq> u ''mimetype'') zin) ws)
     \<and> (\<forall>e \<in> set zin. filename e \<noteq> as_posix opf_path \<longrightarrow>
            (\<exists>w \<in> set zout. filename w = filename e \<and> data w = data e))
     \<and> (\<forall>e \<in> set zin. filename e \<noteq> as_posix opf_path
            \<and> filename e \<noteq> as_posix (joinpath (parent opf_path) (u ''toc.ncx'')) \<longrightarrow>
            zip_read zout (filename e) = Inr (data e))
     \<and> mset (map filename zout)
         = mset (map filename zin) + {#as_posix (joinpath (parent opf_path) (u ''toc.ncx''))#}"
proof -
  from convert_success [OF assms(1)] assms(2) obtain ws where
    ws: "map (out_entry L zin (as_posix opf_path)) (filter (\<lambda>e. filename e \<noteq> u ''mimetype'') zin) = map Some ws"
    and zout: "zout = mimetype_entry zin @ ws @ [ncx_entry L opf_path title author items]"
    by auto
  have shape: "list_all2 (\<lambda>e w. if filename e = as_posix opf_path
                   then (\<exists>t. decode L (data e) = Some t
                          \<and> w = \<lparr>filename = filename e, data = encode L (patch_opf t),
                                 compress_type = ZIP_DEFLATED\<rparr>)
                   else w = e)
                (filter (\<lambda>e. filename e \<noteq> u ''mimetype'') zin) ws"
    by (rule out_entries_rel [OF ws assms(3)]) auto
  have kept: "\<exists>w \<in> set zout. filename w = filename e \<and> data w = data e"
    if e: "e \<in> set zin" and notopf: "filename e \<noteq> as_posix opf_path" for e
  proof -
    have rd: "zip_read zin (filename e) = Inr (data e)"
      using zip_read_distinct [OF assms(3) e] .
    show ?thesis
    proof (cases "filename e = u ''mimetype''")
      case True
      from e True have "u ''mimetype'' \<in> set (map filename zin)"
        by force
      with True rd have "mimetype_entry zin = [\<lparr>filename = u ''mimetype'', data = data e, compress_type = ZIP_STORED\<rparr>]"
        by (simp add: mimetype_entry_def)
      with zout True show ?thesis by simp
    next
      case False
      with e have "e \<in> set (filter (\<lambda>e. filename e \<noteq> u ''mimetype'') zin)"
        by simp
      then have "out_entry L zin (as_posix opf_path) e
          \<in> set (map (out_entry L zin (as_posix opf_path)) (filter (\<lambda>e. filename e \<noteq> u ''mimetype'') zin))"
        unfolding set_map by (rule imageI)
      then have "out_entry L zin (as_posix opf_path) e \<in> set (map Some ws)"
        unfolding ws .
      moreover have "out_entry L zin (as_posix opf_path) e = Some e"
        using rd notopf by (simp add: out_entry_def)
      ultimately have "e \<in> set ws" by auto
      with zout show ?thesis by auto
    qed
  qed
  have part: "mset (map filename zin)
      = mset (filter (\<lambda>n. n = u ''mimetype'') (map filename zin))
        + mset (filter (\<lambda>n. n \<noteq> u ''mimetype'') (map filename zin))"
    by (induction zin) auto
  have one: "filter (\<lambda>n. n = u ''mimetype'') (map filename zin)
      = (if u ''mimetype'' \<in> set (map filename zin) then [u ''mimetype''] else [])"
    using assms(3)
  proof (induction zin)
    case Nil
    show ?case by simp
  next
    case (Cons e zin)
    then show ?case by (auto simp: filter_empty_conv)
  qed
  have names: "mset (map filename zout)
         = mset (map filename zin) + {#as_posix (joinpath (parent opf_path) (u ''toc.ncx''))#}"
    unfolding convert_names [OF assms(1,2)] part one by simp
  have byname: "zip_read zout (filename e) = Inr (data e)"
    if e: "e \<in> set zin" and notopf: "filename e \<noteq> as_posix opf_path"
      and notncx: "filename e \<noteq> as_posix (joinpath (parent opf_path) (u ''toc.ncx''))" for e
  proof -
    from kept [OF e notopf] obtain w where w: "w \<in> set zout" "filename w = filename e" "data w = data e"
      by blast
    from e have "filename e \<in> set (map filename zin)" by simp
    with assms(3) have "count (mset (map filename zin)) (filename e) = 1"
      by (simp add: distinct_count_atmost_1)
    with notncx have "count (mset (map filename zout)) (filename e) = 1"
      unfolding names by simp
    from zip_read_unique [OF this w(1,2)] w(3) show ?thesis by simp
  qed
  from zout shape kept byname names show ?thesis by blast
qed

lemma sample_zip_names:
  "map filename sample_zip = [u ''mimetype'', u ''META-INF/container.xml'', u ''OEBPS/content.opf'',
     u ''OEBPS/nav.xhtml'', u ''OEBPS/c1.xhtml'']"
  by (simp add: sample_zip_def)

lemma sample_zip_distinct: "distinct (map filename sample_zip)"
  unfolding sample_zip_names by (simp add: u_def)

lemma sample_paths:
  "as_posix (Path (u ''OEBPS/content.opf'')) = u ''OEBPS/content.opf''"
  "as_posix (joinpath (parent (Path (u ''OEBPS/content.opf''))) (u ''toc.ncx'')) = u ''OEBPS/toc.ncx''"
  by (simp_all add: path_defs u_def Let_def)

theorem entries_preserved_witness:
  "convert sample_lib init sample_zip = (Inr (), \<lparr>play_order = 4\<rparr>, Some sample_out)
   \<and> distinct (map filename sample_zip)
   \<and> (\<exists>w \<in> set sample_out. filename w = u ''OEBPS/nav.xhtml'' \<and> data w = nav_bytes)
   \<and> zip_read sample_out (u ''OEBPS/nav.xhtml'') = Inr nav_bytes
   \<and> zip_read sample_out (u ''mimetype'') = Inr (u ''application/epub+zip'')
   \<and> mset (map filename sample_out) = mset (map filename sample_zip) + {#u ''OEBPS/toc.ncx''#}"
proof -
  note T = entries_preserved [OF convert_sample [of init] read_package_sample sample_zip_distinct,
      unfolded sample_paths]
  have e: "\<lparr>filename = u ''OEBPS/nav.xhtml'', data = nav_bytes, compress_type = ZIP_DEFLATED\<rparr> \<in> set sample_zip"
    by (simp add: sample_zip_def)
  have ne: "u ''OEBPS/nav.xhtml'' \<noteq> u ''OEBPS/content.opf''" "u ''OEBPS/nav.xhtml'' \<noteq> u ''OEBPS/toc.ncx''"
    by (simp_all add: u_def)
  have m: "\<lparr>filename = u ''mimetype'', data = u ''application/epub+zip'', compress_type = ZIP_DEFLATED\<rparr> \<in> set sample_zip"
    by (simp add: sample_zip_def)
  have nm: "u ''mimetype'' \<noteq> u ''OEBPS/content.opf''" "u ''mimetype'' \<noteq> u ''OEBPS/toc.ncx''"
    by (simp_all add: u_def)
  note kept = T [THEN conjunct2, THEN conjunct1, rule_format]
  note byname = T [THEN conjunct2, THEN conjunct2, THEN conjunct1, rule_format]
  note names = T [THEN conjunct2, THEN conjunct2, THEN conjunct2]
  from kept [OF e] ne(1) have 1: "\<exists>w \<in> set sample_out. filename w = u ''OEBPS/nav.xhtml'' \<and> data w = nav_bytes"
    by simp
  from byname [OF e] ne have 2: "zip_read sample_out (u ''OEBPS/nav.xhtml'') = Inr nav_bytes"
    by simp
  from byname [OF m] nm have 3: "zip_read sample_out (u ''mimetype'') = Inr (u ''application/epub+zip'')"
    by simp
  from convert_sample [of init] sample_zip_distinct 1 2 3 names show ?thesis
    by (intro conjI) assumption+
qed

text \<open>
  C4. For every input archive with an entry named \<open>mimetype\<close>, whenever \<open>convert\<close> opens
  the output archive (also when it fails later), the first entry of the output is
  \<open>mimetype\<close>, written without compression and with the bytes that reading \<open>mimetype\<close>
  from the input gives, whatever the storage mode of the entry in the input.
\<close>

theorem mimetype_first_stored:
  assumes "u ''mimetype'' \<in> set (map filename zin)"
    and "convert L self zin = (r, self', Some zout)"
  shows "zout \<noteq> [] \<and> filename (hd zout) = u ''mimetype'' \<and> compress_type (hd zout) = ZIP_STORED
     \<and> zip_read zin (u ''mimetype'') = Inr (data (hd zout))"
proof -
  from assms(1) obtain d where rd: "zip_read zin (u ''mimetype'') = Inr d"
    using zip_read_present by blast
  let ?m = "\<lparr>filename = u ''mimetype'', data = d, compress_type = ZIP_STORED\<rparr>"
  from assms(1) rd have m: "mimetype_entry zin = [?m]"
    by (simp add: mimetype_entry_def)
  have "\<exists>rest. zout = ?m # rest"
  proof (cases "read_package L zin")
    case (Inl e)
    from assms(2) show ?thesis
      unfolding convert_read_failed [OF Inl] by simp
  next
    case (Inr x)
    obtain opf_path title author items where x: "x = (opf_path, title, author, items)"
      by (cases x) auto
    note rp = Inr [unfolded x]
    obtain e z1 where c: "copy_items L zin (as_posix opf_path) zin [?m] = (e, z1)"
      by (cases "copy_items L zin (as_posix opf_path) zin [?m]")
    obtain ws where "snd (copy_items L zin (as_posix opf_path) zin [?m]) = [?m] @ ws"
      using copy_items_extends by blast
    with c have z1: "z1 = ?m # ws" by simp
    from assms(2) show ?thesis
      unfolding convert_read_ok [OF rp] m c z1 by (cases e) auto
  qed
  with rd show ?thesis by auto
qed

theorem mimetype_first_stored_witness:
  "u ''mimetype'' \<in> set (map filename sample_zip)
   \<and> compress_type (hd sample_zip) = ZIP_DEFLATED
   \<and> convert sample_lib init sample_zip = (Inr (), \<lparr>play_order = 4\<rparr>, Some sample_out)
   \<and> filename (hd sample_out) = u ''mimetype'' \<and> compress_type (hd sample_out) = ZIP_STORED"
proof -
  have m: "u ''mimetype'' \<in> set (map filename sample_zip)"
    unfolding sample_zip_names by simp
  have d: "compress_type (hd sample_zip) = ZIP_DEFLATED"
    by (simp add: sample_zip_def)
  from mimetype_first_stored [OF m convert_sample [of init]] m d convert_sample [of init]
  show ?thesis by blast
qed

section \<open>Failures\<close>

lemma locate_opf_absent:
  assumes "u ''META-INF/container.xml'' \<notin> set (map filename zin)"
  shows "locate_opf L zin = Inl (KeyError (u ''META-INF/container.xml''))"
proof -
  have "filename x \<noteq> u ''META-INF/container.xml''" if "x \<in> set zin" for x
    using that assms by (metis image_eqI set_map)
  then have "filter (\<lambda>e. filename e = u ''META-INF/container.xml'') zin = []"
    by (simp add: filter_empty_conv)
  then show ?thesis
    by (simp add: locate_opf_def read_xml_def zip_read_def)
qed

lemma bad_container_unparsable: "fromstring sample_lib (u ''<container>'') = None"
  by (simp add: sample_lib_def container_bytes_def opf_bytes_def nav_bytes_def opf2_bytes_def
      container_empty_bytes_def opf_latin1_bytes_def u_def)

lemma read_bad_container:
  "zip_read zip_bad_container (u ''META-INF/container.xml'') = Inr (u ''<container>'')"
  by (simp add: zip_read_def zip_bad_container_def u_def)

lemma read_no_rootfile:
  "zip_read zip_no_rootfile (u ''META-INF/container.xml'') = Inr container_empty_bytes"
  by (simp add: zip_read_def zip_no_rootfile_def u_def)

lemma parse_no_rootfile: "fromstring sample_lib container_empty_bytes = Some container_empty_tree"
  by (simp add: sample_lib_def docs_distinct)

lemma no_rootfile:
  "List.map_filter (\<lambda>e. get_attr e ([], u ''full-path''))
     (xpath_all (ns_n, u ''rootfile'') container_empty_tree) = []"
  by (simp add: container_empty_tree_def xml_defs u_def)

lemma read_package_no_opf:
  "read_package sample_lib zip_no_opf = Inl (KeyError (u ''OEBPS/content.opf''))"
  by (simp add: docs_distinct read_package_def locate_opf_def read_xml_def zip_read_def
      zip_no_opf_def sample_lib_def container_tree_def xml_defs path_defs u_def Let_def)






text \<open>
  C9, as the claim states it, fails: the converter has no error of its own for a malformed
  container. An absent descriptor raises \<open>KeyError\<close>, which is also what an absent package
  document raises; an unparsable descriptor raises \<open>XMLSyntaxError\<close>; a descriptor without
  root file raises \<open>IndexError\<close>.
\<close>

theorem container_error_counterexample:
  "convert sample_lib init zip_no_container
     = (Inl (KeyError (u ''META-INF/container.xml'')), \<lparr>play_order = 1\<rparr>, None)
   \<and> convert sample_lib init zip_no_opf
     = (Inl (KeyError (u ''OEBPS/content.opf'')), \<lparr>play_order = 1\<rparr>, None)
   \<and> convert sample_lib init zip_bad_container = (Inl XMLSyntaxError, \<lparr>play_order = 1\<rparr>, None)
   \<and> convert sample_lib init zip_no_rootfile = (Inl IndexError, \<lparr>play_order = 1\<rparr>, None)"
proof -
  have "read_package sample_lib zip_no_container = Inl (KeyError (u ''META-INF/container.xml''))"
    by (simp add: read_package_def locate_opf_absent zip_no_container_def u_def)
  moreover have "read_package sample_lib zip_bad_container = Inl XMLSyntaxError"
    by (simp add: read_package_def locate_opf_def read_xml_def read_bad_container bad_container_unparsable)
  moreover have "read_package sample_lib zip_no_rootfile = Inl IndexError"
    by (simp add: read_package_def locate_opf_def read_xml_def read_no_rootfile parse_no_rootfile
        no_rootfile)
  ultimately show ?thesis
    using read_package_no_opf by (simp add: convert_read_failed)
qed

text \<open>
  C9, amended. When the container descriptor is absent, \<open>convert\<close> fails with \<open>KeyError\<close>
  for its name; when it cannot be parsed, with \<open>XMLSyntaxError\<close>; when it declares no
  root file path, with \<open>IndexError\<close>. In all three cases the error is the outcome of the
  call (raised to the caller) and no output archive is opened.
\<close>

theorem container_errors:
  "(u ''META-INF/container.xml'' \<notin> set (map filename zin) \<longrightarrow>
      convert L self zin = (Inl (KeyError (u ''META-INF/container.xml'')), \<lparr>play_order = 1\<rparr>, None))
   \<and> (zip_read zin (u ''META-INF/container.xml'') = Inr d \<and> fromstring L d = None \<longrightarrow>
      convert L self zin = (Inl XMLSyntaxError, \<lparr>play_order = 1\<rparr>, None))
   \<and> (zip_read zin (u ''META-INF/container.xml'') = Inr d \<and> fromstring L d = Some container_xml
       \<and> List.map_filter (\<lambda>e. get_attr e ([], u ''full-path''))
            (xpath_all (ns_n, u ''rootfile'') container_xml) = [] \<longrightarrow>
      convert L self zin = (Inl IndexError, \<lparr>play_order = 1\<rparr>, None))"
proof (intro conjI impI)
  assume "u ''META-INF/container.xml'' \<notin> set (map filename zin)"
  then have "read_package L zin = Inl (KeyError (u ''META-INF/container.xml''))"
    by (simp add: read_package_def locate_opf_absent)
  then show "convert L self zin = (Inl (KeyError (u ''META-INF/container.xml'')), \<lparr>play_order = 1\<rparr>, None)"
    by (rule convert_read_failed)
next
  assume "zip_read zin (u ''META-INF/container.xml'') = Inr d \<and> fromstring L d = None"
  then have "read_package L zin = Inl XMLSyntaxError"
    by (simp add: read_package_def locate_opf_def read_xml_def)
  then show "convert L self zin = (Inl XMLSyntaxError, \<lparr>play_order = 1\<rparr>, None)"
    by (rule convert_read_failed)
next
  assume "zip_read zin (u ''META-INF/container.xml'') = Inr d \<and> fromstring L d = Some container_xml
       \<and> List.map_filter (\<lambda>e. get_attr e ([], u ''full-path''))
            (xpath_all (ns_n, u ''rootfile'') container_xml) = []"
  then have "read_package L zin = Inl IndexError"
    by (simp add: read_package_def locate_opf_def read_xml_def)
  then show "convert L self zin = (Inl IndexError, \<lparr>play_order = 1\<rparr>, None)"
    by (rule convert_read_failed)
qed

theorem container_errors_witness:
  "u ''META-INF/container.xml'' \<notin> set (map filename zip_no_container)
   \<and> convert sample_lib \<lparr>play_order = 9\<rparr> zip_no_container
       = (Inl (KeyError (u ''META-INF/container.xml'')), \<lparr>play_order = 1\<rparr>, None)
   \<and> zip_read zip_bad_container (u ''META-INF/container.xml'') = Inr (u ''<container>'')
   \<and> fromstring sample_lib (u ''<container>'') = None
   \<and> convert sample_lib \<lparr>play_order = 9\<rparr> zip_bad_container = (Inl XMLSyntaxError, \<lparr>play_order = 1\<rparr>, None)
   \<and> zip_read zip_no_rootfile (u ''META-INF/container.xml'') = Inr container_empty_bytes
   \<and> fromstring sample_lib container_empty_bytes = Some container_empty_tree
   \<and> convert sample_lib \<lparr>play_order = 9\<rparr> zip_no_rootfile = (Inl IndexError, \<lparr>play_order = 1\<rparr>, None)"
proof -
  have a: "u ''META-INF/container.xml'' \<notin> set (map filename zip_no_container)"
    by (simp add: zip_no_container_def u_def)
  from a container_errors [of zip_no_container sample_lib "\<lparr>play_order = 9\<rparr>"]
  have 1: "convert sample_lib \<lparr>play_order = 9\<rparr> zip_no_container
       = (Inl (KeyError (u ''META-INF/container.xml'')), \<lparr>play_order = 1\<rparr>, None)"
    by blast
  from read_bad_container bad_container_unparsable
    container_errors [of zip_bad_container sample_lib "\<lparr>play_order = 9\<rparr>" "u ''<container>''"]
  have 2: "convert sample_lib \<lparr>play_order = 9\<rparr> zip_bad_container
      = (Inl XMLSyntaxError, \<lparr>play_order = 1\<rparr>, None)"
    by blast
  from read_no_rootfile parse_no_rootfile no_rootfile
    container_errors [of zip_no_rootfile sample_lib "\<lparr>play_order = 9\<rparr>" container_empty_bytes
      container_empty_tree]
  have 3: "convert sample_lib \<lparr>play_order = 9\<rparr> zip_no_rootfile = (Inl IndexError, \<lparr>play_order = 1\<rparr>, None)"
    by blast
  from a 1 2 3 read_bad_container bad_container_unparsable read_no_rootfile parse_no_rootfile
  show ?thesis by blast
qed

section \<open>The navigation parser\<close>

lemma parse_lis_anchor:
  assumes "xpath_child xhtml_a li = a # others"
  shows "parse_lis (li # lis) d =
     (case nav_src d (get_attr a ([], u ''href'')) of
        Inl e \<Rightarrow> Inl e
      | Inr s \<Rightarrow>
          (case (case xpath_child xhtml_ol li of [] \<Rightarrow> Inr [] | ol # _ \<Rightarrow> parse_nav_level ol d) of
             Inl e \<Rightarrow> Inl e
           | Inr cs \<Rightarrow>
               (case parse_lis lis d of
                  Inl e \<Rightarrow> Inl e
                | Inr items \<Rightarrow> Inr (NavItem (strip (itertext a)) s cs # items))))"
  using assms by simp

lemma parse_lis_no_anchor:
  assumes "xpath_child xhtml_a li = []"
  shows "parse_lis (li # lis) d = parse_lis lis d"
  using assms by simp

declare parse_nav_level.simps [simp del] parse_lis.simps(2) [simp del]

lemma nav_src_iff:
  "nav_src d href = Inr s \<longleftrightarrow>
     (if name d = [] then s = href
      else (case href of None \<Rightarrow> False | Some h \<Rightarrow> s = Some (as_posix (joinpath d h))))"
  by (auto simp: nav_src_def split: option.splits)

lemma parse_items_of_lis:
  "parse_nav_level element d = Inr items
     \<longleftrightarrow> list_all2 (item_of_li d) (filter has_anchor (xpath_child xhtml_li element)) items"
  and "parse_lis lis d = Inr items \<longleftrightarrow> list_all2 (item_of_li d) (filter has_anchor lis) items"
proof (induction element d and lis d arbitrary: items and items rule: parse_nav_level_parse_lis.induct)
  case (1 element nav_rel_dir)
  then show ?case by (simp add: parse_nav_level.simps)
next
  case (2 nav_rel_dir)
  show ?case by (auto simp: parse_lis.simps(1))
next
  case (3 li lis nav_rel_dir)
  show ?case
  proof (cases "xpath_child xhtml_a li")
    case Nil
    with "3.IH"(1) show ?thesis
      by (simp add: parse_lis_no_anchor has_anchor_def)
  next
    case (Cons a others)
    have ha: "has_anchor li" using Cons by (simp add: has_anchor_def)
    let ?kids = "case xpath_child xhtml_ol li of [] \<Rightarrow> Inr [] | ol # _ \<Rightarrow> parse_nav_level ol nav_rel_dir"
    have kids: "?kids = Inr cs \<longleftrightarrow>
        (case xpath_child xhtml_ol li of
           [] \<Rightarrow> cs = []
         | ol # _ \<Rightarrow> list_all2 (item_of_li nav_rel_dir) (filter has_anchor (xpath_child xhtml_li ol)) cs)"
      if "nav_src nav_rel_dir (get_attr a ([], u ''href'')) = Inr s" for s cs
    proof (cases "xpath_child xhtml_ol li")
      case Nil
      then show ?thesis by auto
    next
      case ol: (Cons ol ols)
      with "3.IH"(2) [OF Cons that ol, of cs] show ?thesis by simp
    qed
    show ?thesis
    proof
      assume p: "parse_lis (li # lis) nav_rel_dir = Inr items"
      from p obtain s where s: "nav_src nav_rel_dir (get_attr a ([], u ''href'')) = Inr s"
        unfolding parse_lis_anchor [OF Cons] by (auto split: sum.splits)
      from p s obtain cs where cs: "?kids = Inr cs"
        unfolding parse_lis_anchor [OF Cons] by (auto split: sum.splits)
      from p s cs obtain rest where rest: "parse_lis lis nav_rel_dir = Inr rest"
        and items: "items = NavItem (strip (itertext a)) s cs # rest"
        unfolding parse_lis_anchor [OF Cons] by (auto split: sum.splits)
      have "item_of_li nav_rel_dir li (NavItem (strip (itertext a)) s cs)"
        using Cons s [unfolded nav_src_iff] kids [OF s, of cs] cs by simp
      moreover have "list_all2 (item_of_li nav_rel_dir) (filter has_anchor lis) rest"
        using "3.IH"(3) [OF Cons s cs, of rest] rest by simp
      ultimately show "list_all2 (item_of_li nav_rel_dir) (filter has_anchor (li # lis)) items"
        unfolding items using ha by simp
    next
      assume r: "list_all2 (item_of_li nav_rel_dir) (filter has_anchor (li # lis)) items"
      with ha obtain i rest where items: "items = i # rest" and i: "item_of_li nav_rel_dir li i"
        and rest: "list_all2 (item_of_li nav_rel_dir) (filter has_anchor lis) rest"
        by (auto simp: list_all2_Cons1)
      obtain t s cs where it: "i = NavItem t s cs" by (cases i)
      from i [unfolded it] Cons have t: "t = strip (itertext a)"
        and s: "nav_src nav_rel_dir (get_attr a ([], u ''href'')) = Inr s"
        and c: "(case xpath_child xhtml_ol li of
           [] \<Rightarrow> cs = []
         | ol # _ \<Rightarrow> list_all2 (item_of_li nav_rel_dir) (filter has_anchor (xpath_child xhtml_li ol)) cs)"
        unfolding nav_src_iff by simp_all
      from kids [OF s, of cs] c have cs: "?kids = Inr cs" by simp
      from "3.IH"(3) [OF Cons s cs, of rest] rest have "parse_lis lis nav_rel_dir = Inr rest" by simp
      with s cs show "parse_lis (li # lis) nav_rel_dir = Inr items"
        unfolding parse_lis_anchor [OF Cons] items it t by simp
    qed
  qed
qed

lemma parse_failure:
  "parse_nav_level element d = Inl e \<longrightarrow> e = TypeError \<and> name d \<noteq> []"
  and "parse_lis lis d = Inl e \<longrightarrow> e = TypeError \<and> name d \<noteq> []"
proof (induction element d and lis d arbitrary: e and e rule: parse_nav_level_parse_lis.induct)
  case (1 element nav_rel_dir)
  then show ?case by (simp add: parse_nav_level.simps)
next
  case (2 nav_rel_dir)
  show ?case by (simp add: parse_lis.simps(1))
next
  case (3 li lis nav_rel_dir)
  show ?case
  proof (cases "xpath_child xhtml_a li")
    case Nil
    with "3.IH"(1) show ?thesis
      by (simp add: parse_lis_no_anchor)
  next
    case (Cons a others)
    show ?thesis
    proof (cases "nav_src nav_rel_dir (get_attr a ([], u ''href''))")
      case (Inl e')
      then have "e' = TypeError \<and> name nav_rel_dir \<noteq> []"
        by (auto simp: nav_src_def split: if_splits option.splits)
      with Inl show ?thesis
        unfolding parse_lis_anchor [OF Cons] by simp
    next
      case (Inr s)
      show ?thesis
      proof (cases "case xpath_child xhtml_ol li of [] \<Rightarrow> Inr [] | ol # _ \<Rightarrow> parse_nav_level ol nav_rel_dir")
        case (Inl e')
        then obtain ol ols where ol: "xpath_child xhtml_ol li = ol # ols"
          by (cases "xpath_child xhtml_ol li") auto
        with Inl "3.IH"(2) [OF Cons Inr ol, of e'] have "e' = TypeError \<and> name nav_rel_dir \<noteq> []"
          by auto
        with Inl Inr show ?thesis
          unfolding parse_lis_anchor [OF Cons] by simp
      next
        case cs: (Inr cs)
        from "3.IH"(3) [OF Cons Inr cs] Inr cs show ?thesis
          unfolding parse_lis_anchor [OF Cons] by (auto split: sum.splits)
      qed
    qed
  qed
qed

lemma parse_lis_append:
  "parse_lis (xs @ ys) d =
     (case parse_lis xs d of
        Inl e \<Rightarrow> Inl e
      | Inr before \<Rightarrow> (case parse_lis ys d of Inl e \<Rightarrow> Inl e | Inr after \<Rightarrow> Inr (before @ after)))"
proof (induction xs)
  case Nil
  show ?case by (simp add: parse_lis.simps(1) split: sum.splits)
next
  case (Cons li xs)
  show ?case
  proof (cases "xpath_child xhtml_a li")
    case Nil
    with Cons show ?thesis by (simp add: parse_lis_no_anchor)
  next
    case (Cons a others)
    show ?thesis
      unfolding append_Cons parse_lis_anchor [OF Cons] Cons.IH
      by (simp split: sum.splits)
  qed
qed

lemma parse_lis_single:
  assumes "xpath_child xhtml_a li = a # others"
  shows "parse_lis [li] d =
     (case nav_src d (get_attr a ([], u ''href'')) of
        Inl e \<Rightarrow> Inl e
      | Inr s \<Rightarrow>
          (case (case xpath_child xhtml_ol li of [] \<Rightarrow> Inr [] | ol # _ \<Rightarrow> parse_nav_level ol d) of
             Inl e \<Rightarrow> Inl e
           | Inr cs \<Rightarrow> Inr [NavItem (strip (itertext a)) s cs]))"
  unfolding parse_lis_anchor [OF assms] by (simp add: parse_lis.simps(1) split: sum.splits)

text \<open>
  C10. For a list item with several anchor children, wherever it stands in its list, the
  parser takes the label and the target from the first anchor in document order and
  ignores the others: the list parses to the same result when the item is replaced by
  any item with the same first anchor and the same nested lists, in particular by the item
  with the first anchor only; and when the parse succeeds, the result is the items of
  the list items before it, then exactly one navigation item for it, with the text and
  the href of the first anchor, then the items of the list items after it.
\<close>

theorem first_anchor_only:
  assumes "xpath_child xhtml_a li = a # others"
    and "xpath_child xhtml_a li1 = a # others1"
    and "xpath_child xhtml_ol li1 = xpath_child xhtml_ol li"
  shows "parse_lis (pre @ li # post) d = parse_lis (pre @ li1 # post) d
     \<and> (xpath_child xhtml_li ol = pre @ li # post \<and> xpath_child xhtml_li ol1 = pre @ li1 # post
          \<longrightarrow> parse_nav_level ol d = parse_nav_level ol1 d)
     \<and> (\<forall>items. parse_lis (pre @ li # post) d = Inr items \<longrightarrow>
           (\<exists>before s cs after.
              items = before @ NavItem (strip (itertext a)) s cs # after
              \<and> parse_lis pre d = Inr before \<and> parse_lis post d = Inr after
              \<and> nav_src d (get_attr a ([], u ''href'')) = Inr s
              \<and> (case xpath_child xhtml_ol li of [] \<Rightarrow> Inr [] | ol # _ \<Rightarrow> parse_nav_level ol d) = Inr cs))"
proof (intro conjI impI allI)
  have single: "parse_lis [li] d = parse_lis [li1] d"
    unfolding parse_lis_single [OF assms(1)] parse_lis_single [OF assms(2)] assms(3) ..
  have split: "parse_lis (pre @ x # post) d =
     (case parse_lis pre d of
        Inl e \<Rightarrow> Inl e
      | Inr before \<Rightarrow>
          (case parse_lis [x] d of
             Inl e \<Rightarrow> Inl e
           | Inr mid \<Rightarrow> (case parse_lis post d of Inl e \<Rightarrow> Inl e | Inr after \<Rightarrow> Inr (before @ mid @ after))))" for x
    using parse_lis_append [of pre "[x] @ post" d] parse_lis_append [of "[x]" post d]
    by (simp split: sum.splits)
  show same: "parse_lis (pre @ li # post) d = parse_lis (pre @ li1 # post) d"
    unfolding split single ..
  {
    assume "xpath_child xhtml_li ol = pre @ li # post \<and> xpath_child xhtml_li ol1 = pre @ li1 # post"
    then show "parse_nav_level ol d = parse_nav_level ol1 d"
      unfolding parse_nav_level.simps [of ol] parse_nav_level.simps [of ol1] using same by simp
  }
  {
    fix items
    assume "parse_lis (pre @ li # post) d = Inr items"
    then show "\<exists>before s cs after.
              items = before @ NavItem (strip (itertext a)) s cs # after
              \<and> parse_lis pre d = Inr before \<and> parse_lis post d = Inr after
              \<and> nav_src d (get_attr a ([], u ''href'')) = Inr s
              \<and> (case xpath_child xhtml_ol li of [] \<Rightarrow> Inr [] | ol # _ \<Rightarrow> parse_nav_level ol d) = Inr cs"
      unfolding split parse_lis_single [OF assms(1)]
      by (auto split: sum.splits)
  }
qed

theorem first_anchor_only_witness:
  "xpath_child xhtml_a li_two_anchors
     = [Elem xhtml_a [(([], u ''href''), u ''c1.xhtml'')] [Text (u ''Ch1'')],
        Elem xhtml_a [(([], u ''href''), u ''notes.xhtml'')] [Text (u ''Notes'')]]
   \<and> xpath_child xhtml_li ol_three_items
       = [li_plain ''c0.xhtml'' ''Ch0''] @ li_two_anchors # [li_plain ''c2.xhtml'' ''Ch2'']
   \<and> parse_nav_level ol_three_first (parent (Path (u ''nav.xhtml'')))
       = Inr [NavItem (u ''Ch0'') (Some (u ''c0.xhtml'')) [],
              NavItem (u ''Ch1'') (Some (u ''c1.xhtml'')) [],
              NavItem (u ''Ch2'') (Some (u ''c2.xhtml'')) []]
   \<and> parse_nav_level ol_three_items (parent (Path (u ''nav.xhtml'')))
       = Inr [NavItem (u ''Ch0'') (Some (u ''c0.xhtml'')) [],
              NavItem (u ''Ch1'') (Some (u ''c1.xhtml'')) [],
              NavItem (u ''Ch2'') (Some (u ''c2.xhtml'')) []]"
proof -
  have is_li: "is_elem xhtml_li (li_plain h t)" "is_elem xhtml_li li_two_anchors"
      "is_elem xhtml_li li_first_anchor" for h t
    by (simp_all add: li_plain_def li_two_anchors_def li_first_anchor_def)
  have 1: "xpath_child xhtml_li ol_three_items
       = [li_plain ''c0.xhtml'' ''Ch0''] @ li_two_anchors # [li_plain ''c2.xhtml'' ''Ch2'']"
    by (simp add: ol_three_items_def xpath_child_def is_li)
  have 2: "xpath_child xhtml_a li_two_anchors
     = Elem xhtml_a [(([], u ''href''), u ''c1.xhtml'')] [Text (u ''Ch1'')]
        # [Elem xhtml_a [(([], u ''href''), u ''notes.xhtml'')] [Text (u ''Notes'')]]"
    by (simp add: li_two_anchors_def xml_defs u_def)
  have 3: "xpath_child xhtml_li ol_three_first
       = [li_plain ''c0.xhtml'' ''Ch0''] @ li_first_anchor # [li_plain ''c2.xhtml'' ''Ch2'']"
    by (simp add: ol_three_first_def xpath_child_def is_li)
  have 4: "xpath_child xhtml_a li_first_anchor
     = Elem xhtml_a [(([], u ''href''), u ''c1.xhtml'')] [Text (u ''Ch1'')] # []"
    by (simp add: li_first_anchor_def xml_defs u_def)
  have 5: "xpath_child xhtml_ol li_first_anchor = xpath_child xhtml_ol li_two_anchors"
    by (simp add: li_first_anchor_def li_two_anchors_def xml_defs u_def)
  have one: "parse_nav_level ol_three_first (parent (Path (u ''nav.xhtml'')))
       = Inr [NavItem (u ''Ch0'') (Some (u ''c0.xhtml'')) [],
              NavItem (u ''Ch1'') (Some (u ''c1.xhtml'')) [],
              NavItem (u ''Ch2'') (Some (u ''c2.xhtml'')) []]"
    by (simp add: parse_nav_level.simps parse_lis.simps ol_three_first_def li_plain_def
        li_first_anchor_def xml_defs path_defs nav_src_def strip_def isspace_def u_def)
  from first_anchor_only [OF 2 4 5, of "[li_plain ''c0.xhtml'' ''Ch0'']" "[li_plain ''c2.xhtml'' ''Ch2'']"
      "parent (Path (u ''nav.xhtml''))" ol_three_items ol_three_first] 1 3
  have "parse_nav_level ol_three_items (parent (Path (u ''nav.xhtml'')))
      = parse_nav_level ol_three_first (parent (Path (u ''nav.xhtml'')))"
    by blast
  with one 1 2 show ?thesis by simp
qed

section \<open>Targets of navigation items\<close>

lemma content_lines_rendered:
  "sublist (fst (build_ncx_points k items)) doc \<Longrightarrow> every_item (\<lambda>i. sublist (content_line i) doc) items"
proof (induction k items arbitrary: doc rule: number_points.induct)
  case (1 k)
  show ?case by simp
next
  case (2 k t s cs rest)
  let ?head = \<open>u ''<navPoint id="'' @ u ''nav_'' @ str_nat k @ u ''" playOrder="'' @ str_nat k @ u ''">\<newline>''
     @ u ''  <navLabel><text>'' @ t @ u ''</text></navLabel>\<newline>''\<close>
  let ?line = \<open>u ''  <content src="'' @ fmt_opt s @ u ''"/>\<newline>''\<close>
  let ?sub = "fst (build_ncx_points (k + 1) cs)"
  let ?rest = "fst (build_ncx_points (k + 1 + count_items cs) rest)"
  have whole: \<open>fst (build_ncx_points k (NavItem t s cs # rest))
      = ?head @ ?line @ ?sub @ u ''</navPoint>\<newline>'' @ ?rest\<close>
    by (simp add: build_render)
  have 1: "sublist ?line (fst (build_ncx_points k (NavItem t s cs # rest)))"
    unfolding whole by (rule sublist_appendI)
  have 2: "sublist ?sub (fst (build_ncx_points k (NavItem t s cs # rest)))"
    unfolding whole using sublist_appendI [of ?sub "?head @ ?line"] by simp
  have 3: "sublist ?rest (fst (build_ncx_points k (NavItem t s cs # rest)))"
    unfolding whole using sublist_append_leftI [of ?rest \<open>?head @ ?line @ ?sub @ u ''</navPoint>\<newline>''\<close>] by simp
  note tr = sublist_order.order_trans [OF _ "2.prems"]
  from "2.IH"(1) [OF tr [OF 2]] "2.IH"(2) [OF tr [OF 3]] tr [OF 1]
  show ?case by (simp add: content_line_def)
qed

text \<open>
  C7, as the claim states it, fails: in the sample the package document is
  \<open>OEBPS/content.opf\<close> and the first item of the navigation document \<open>OEBPS/nav.xhtml\<close>
  points to \<open>c1.xhtml\<close>. The target stored is \<open>c1.xhtml\<close>, which is no entry of the
  archive; the entry is \<open>OEBPS/c1.xhtml\<close>.
\<close>

theorem nav_target_counterexample:
  "read_package sample_lib sample_zip = Inr (Path (u ''OEBPS/content.opf''), u ''Book'', [], sample_nav)
   \<and> src (hd sample_nav) = Some (u ''c1.xhtml'')
   \<and> zip_read sample_zip (u ''c1.xhtml'') = Inl (KeyError (u ''c1.xhtml''))
   \<and> zip_read sample_zip (u ''OEBPS/c1.xhtml'') = Inr (u ''<html/>'')"
proof -
  have "src (hd sample_nav) = Some (u ''c1.xhtml'')"
    by (simp add: sample_nav_def)
  moreover have "zip_read sample_zip (u ''c1.xhtml'') = Inl (KeyError (u ''c1.xhtml''))"
    by (simp add: zip_read_def sample_zip_def u_def)
  moreover have "zip_read sample_zip (u ''OEBPS/c1.xhtml'') = Inr (u ''<html/>'')"
    by (simp add: zip_read_def sample_zip_def u_def)
  ultimately show ?thesis
    using read_package_sample by simp
qed

text \<open>
  C7, amended. The navigation tree is parsed with the directory part of the href that the
  manifest gives for the navigation document, that is, the directory of the navigation
  document relative to the directory of the package document. The parse succeeds with a
  list of items exactly when the items are, in order, those of the list items that have
  an anchor, each item coming from its own list item as \<open>item_of_li\<close> says, at every
  level: the label is the trimmed text of the first anchor of the list item, and the
  target is the href of that anchor as it is when the directory has no name, and the
  href joined to the directory by \<open>pathlib\<close> otherwise. The only failure is
  \<open>TypeError\<close>, for an anchor without href when the directory has a name. The target
  of every item, at every level, is emitted as the \<open>src\<close> of a \<open>content\<close> element of the
  navigation map, which is the rendering of the items numbered in pre-order, each
  navigation point with the label and the target of its item. It is a path relative to the directory of the package document, where
  \<open>toc.ncx\<close> is written, and not a path from the root of the archive.
\<close>

theorem nav_target_resolution:
  \<open>(filter has_nav_property (xpath_all (ns_opf, u ''item'') opf_xml) = nav_meta # metas
      \<and> get_attr nav_meta ([], u ''href'') = Some nav_href
      \<and> read_xml L zin (as_posix (joinpath (parent opf_path) nav_href)) = Inr nav_xml
      \<and> (if filter (\<lambda>e. get_attr e (ns_epub, u ''type'') = Some (u ''toc'')) (xpath_all xhtml_nav nav_xml) \<noteq> []
          then filter (\<lambda>e. get_attr e (ns_epub, u ''type'') = Some (u ''toc'')) (xpath_all xhtml_nav nav_xml)
          else xpath_all xhtml_nav nav_xml) = nav # navs
      \<and> xpath_child xhtml_ol nav = ol_node # ols
      \<longrightarrow> read_nav_points L zin opf_path opf_xml = parse_nav_level ol_node (parent (Path nav_href)))
   \<and> (parse_nav_level ol d = Inr items)
       = list_all2 (item_of_li d) (filter has_anchor (xpath_child xhtml_li ol)) items
   \<and> (parse_nav_level ol d = Inl e \<longrightarrow> e = TypeError \<and> name d \<noteq> [])
   \<and> every_item (\<lambda>i. sublist (content_line i) (fst (build_ncx_points k items))) items
   \<and> fst (build_ncx_points k items) = render_points (number_points k items)
   \<and> erase_points (number_points k items) = items\<close>
proof (intro conjI impI)
  assume "filter has_nav_property (xpath_all (ns_opf, u ''item'') opf_xml) = nav_meta # metas
      \<and> get_attr nav_meta ([], u ''href'') = Some nav_href
      \<and> read_xml L zin (as_posix (joinpath (parent opf_path) nav_href)) = Inr nav_xml
      \<and> (if filter (\<lambda>e. get_attr e (ns_epub, u ''type'') = Some (u ''toc'')) (xpath_all xhtml_nav nav_xml) \<noteq> []
          then filter (\<lambda>e. get_attr e (ns_epub, u ''type'') = Some (u ''toc'')) (xpath_all xhtml_nav nav_xml)
          else xpath_all xhtml_nav nav_xml) = nav # navs
      \<and> xpath_child xhtml_ol nav = ol_node # ols"
  then show "read_nav_points L zin opf_path opf_xml = parse_nav_level ol_node (parent (Path nav_href))"
    by (simp add: read_nav_points_def Let_def)
next
  show "(parse_nav_level ol d = Inr items)
       = list_all2 (item_of_li d) (filter has_anchor (xpath_child xhtml_li ol)) items"
    by (rule parse_items_of_lis(1))
next
  assume "parse_nav_level ol d = Inl e"
  with parse_failure(1) [of ol d e] show "e = TypeError" and "name d \<noteq> []"
    by blast+
next
  show "every_item (\<lambda>i. sublist (content_line i) (fst (build_ncx_points k items))) items"
    by (rule content_lines_rendered [of k]) simp
next
  show "fst (build_ncx_points k items) = render_points (number_points k items)"
    by (simp add: build_render)
next
  show "erase_points (number_points k items) = items"
    by (rule erase_number)
qed

theorem nav_target_resolution_witness:
  "name (parent (Path (u ''nav.xhtml''))) = []
   \<and> parse_nav_level nav_ol (parent (Path (u ''nav.xhtml''))) = Inr sample_nav
   \<and> list_all2 (item_of_li (parent (Path (u ''nav.xhtml''))))
        (filter has_anchor (xpath_child xhtml_li nav_ol)) sample_nav
   \<and> name (parent (Path (u ''text/nav.xhtml''))) \<noteq> []
   \<and> parse_nav_level nav_ol (parent (Path (u ''text/nav.xhtml''))) = Inr nav_in_text
   \<and> list_all2 (item_of_li (parent (Path (u ''text/nav.xhtml''))))
        (filter has_anchor (xpath_child xhtml_li nav_ol)) nav_in_text
   \<and> every_item (\<lambda>i. sublist (content_line i) (fst (build_ncx_points 1 nav_in_text))) nav_in_text
   \<and> parse_nav_level ol_no_href (parent (Path (u ''text/nav.xhtml''))) = Inl TypeError
   \<and> read_nav_points sample_lib sample_zip (Path (u ''OEBPS/content.opf'')) opf_tree
       = parse_nav_level nav_ol (parent (Path (u ''nav.xhtml'')))"
proof -
  let ?item = "Elem (ns_opf, u ''item'')
             [(([], u ''id''), u ''nav''), (([], u ''href''), u ''nav.xhtml''),
              (([], u ''properties''), u ''nav'')] []"
  let ?nav = "Elem xhtml_nav [((ns_epub, u ''type''), u ''toc'')] [nav_ol]"
  have h1: "filter has_nav_property (xpath_all (ns_opf, u ''item'') opf_tree) = ?item # []"
    by (simp add: opf_tree_def xml_defs u_def)
  have h2: "get_attr ?item ([], u ''href'') = Some (u ''nav.xhtml'')"
    by (simp add: u_def)
  have h3: "read_xml sample_lib sample_zip
      (as_posix (joinpath (parent (Path (u ''OEBPS/content.opf''))) (u ''nav.xhtml''))) = Inr nav_tree"
    by (simp add: docs_distinct read_xml_def zip_read_def sample_zip_def sample_lib_def path_defs u_def Let_def)
  have h4: "(if filter (\<lambda>e. get_attr e (ns_epub, u ''type'') = Some (u ''toc'')) (xpath_all xhtml_nav nav_tree) \<noteq> []
          then filter (\<lambda>e. get_attr e (ns_epub, u ''type'') = Some (u ''toc'')) (xpath_all xhtml_nav nav_tree)
          else xpath_all xhtml_nav nav_tree) = ?nav # []"
    by (simp add: nav_tree_def nav_ol_def nav_li_def xml_defs u_def)
  have h5: "xpath_child xhtml_ol ?nav = nav_ol # []"
    by (simp add: nav_ol_def xml_defs u_def)
  from h1 h2 h3 h4 h5
    nav_target_resolution [where opf_xml = opf_tree and nav_meta = ?item and metas = "[]"
      and nav_href = "u ''nav.xhtml''" and L = sample_lib and zin = sample_zip
      and opf_path = "Path (u ''OEBPS/content.opf'')" and nav_xml = nav_tree and nav = ?nav
      and navs = "[]" and ol_node = nav_ol and ols = "[]"]
  have r0: "read_nav_points sample_lib sample_zip (Path (u ''OEBPS/content.opf'')) opf_tree
       = parse_nav_level nav_ol (parent (Path (u ''nav.xhtml'')))"
    by blast
  have n1: "name (parent (Path (u ''nav.xhtml''))) = []"
    by (simp add: path_defs u_def)
  have n2: "name (parent (Path (u ''text/nav.xhtml''))) \<noteq> []"
    by (simp add: path_defs u_def)
  have p1: "parse_nav_level nav_ol (parent (Path (u ''nav.xhtml''))) = Inr sample_nav"
    by (simp add: parse_nav_level.simps parse_lis.simps nav_ol_def nav_li_def sample_nav_def
        xml_defs path_defs nav_src_def strip_def isspace_def u_def Let_def)
  have p2: "parse_nav_level nav_ol (parent (Path (u ''text/nav.xhtml''))) = Inr nav_in_text"
    by (simp add: parse_nav_level.simps parse_lis.simps nav_ol_def nav_li_def nav_in_text_def
        xml_defs path_defs nav_src_def strip_def isspace_def u_def Let_def)
  have p3: "parse_nav_level ol_no_href (parent (Path (u ''text/nav.xhtml''))) = Inl TypeError"
    by (simp add: parse_nav_level.simps parse_lis.simps ol_no_href_def
        xml_defs path_defs nav_src_def u_def Let_def)
  note T1 = nav_target_resolution [where ol = nav_ol and d = "parent (Path (u ''nav.xhtml''))"
      and items = sample_nav]
  note T2 = nav_target_resolution [where ol = nav_ol and d = "parent (Path (u ''text/nav.xhtml''))"
      and items = nav_in_text and k = 1]
  from T1 p1 have r1: "list_all2 (item_of_li (parent (Path (u ''nav.xhtml''))))
        (filter has_anchor (xpath_child xhtml_li nav_ol)) sample_nav"
    by blast
  from T2 p2 have r2: "list_all2 (item_of_li (parent (Path (u ''text/nav.xhtml''))))
        (filter has_anchor (xpath_child xhtml_li nav_ol)) nav_in_text"
    by blast
  from T2 have r3: "every_item (\<lambda>i. sublist (content_line i) (fst (build_ncx_points 1 nav_in_text))) nav_in_text"
    by blast
  from n1 p1 r1 n2 p2 r2 r3 p3 r0 show ?thesis
    by blast
qed

section \<open>Text substitutions\<close>

lemma join_str_Cons: "join_str sep (p # ps) = p @ (if ps = [] then [] else sep @ join_str sep ps)"
  by (cases ps) simp_all

lemma replace_str_pieces:
  assumes "old \<noteq> []"
  shows "\<exists>ps. ps \<noteq> [] \<and> s = join_str old ps \<and> replace_str old new s = join_str new ps
     \<and> list_all (\<lambda>p. \<not> sublist old p) ps"
  using assms
proof (induction old new s rule: replace_str.induct)
  case (1 old new)
  then show ?case by (intro exI [of _ "[[]]"]) simp
next
  case (2 old new c cs)
  show ?case
  proof (cases "old \<noteq> [] \<and> prefix old (c # cs)")
    case True
    then obtain rest where rest: "c # cs = old @ rest"
      by (auto simp: prefix_def)
    then have d: "drop (length old) (c # cs) = rest" by simp
    from "2.IH"(1) [OF True "2.prems"] d obtain ps where ps: "ps \<noteq> []" "rest = join_str old ps"
        "replace_str old new rest = join_str new ps" "list_all (\<lambda>p. \<not> sublist old p) ps"
      by auto
    have "c # cs = join_str old ([] # ps)"
      using rest ps(1,2) by (simp add: join_str_Cons)
    moreover have "replace_str old new (c # cs) = join_str new ([] # ps)"
      using True d ps(1,3) by (simp add: join_str_Cons)
    moreover have "list_all (\<lambda>p. \<not> sublist old p) ([] # ps)"
      using True ps(4) by simp
    ultimately show ?thesis
      by (intro exI [of _ "[] # ps"]) simp
  next
    case False
    from "2.IH"(2) [OF False "2.prems"] obtain ps where ps: "ps \<noteq> []" "cs = join_str old ps"
        "replace_str old new cs = join_str new ps" "list_all (\<lambda>p. \<not> sublist old p) ps"
      by auto
    from ps(1) obtain p ps' where pp: "ps = p # ps'" by (cases ps) auto
    show ?thesis
    proof -
      note ne = "2.prems"
      from ne False have np: "\<not> prefix old (c # cs)" by simp
      have "prefix (c # p) (c # cs)"
        unfolding ps(2) pp join_str_Cons by simp
      with np have "\<not> prefix old (c # p)"
        using prefix_order.trans by blast
      with ps(4) pp have "\<not> sublist old (c # p)"
        by (simp add: sublist_Cons_right)
      with ps(4) pp have l: "list_all (\<lambda>p. \<not> sublist old p) ((c # p) # ps')"
        by simp
      have "c # cs = join_str old ((c # p) # ps')"
        unfolding ps(2) pp join_str_Cons by simp
      moreover have "replace_str old new (c # cs) = join_str new ((c # p) # ps')"
        using np ps(3) unfolding pp join_str_Cons by simp
      ultimately show ?thesis
        using l by (intro exI [of _ "(c # p) # ps'"]) simp
    qed
  qed
qed

lemma takeWhile_run:
  assumes "list_all P xs" and "ys \<noteq> [] \<longrightarrow> \<not> P (hd ys)"
  shows "takeWhile P (xs @ ys) = xs" and "dropWhile P (xs @ ys) = ys"
proof -
  from assms(1) have all: "\<forall>x \<in> set xs. P x" by (simp add: list_all_iff)
  have t: "takeWhile P ys = []" and d: "dropWhile P ys = ys"
    using assms(2) by (cases ys; simp)+
  from all t show "takeWhile P (xs @ ys) = xs" by simp
  from all d show "dropWhile P (xs @ ys) = ys" by simp
qed

lemma drop_while_split:
  assumes "dropWhile P s \<noteq> []"
  shows "\<exists>rest. s = takeWhile P s @ hd (dropWhile P s) # rest \<and> \<not> P (hd (dropWhile P s))
     \<and> dropWhile P s = hd (dropWhile P s) # rest"
proof -
  from assms obtain x rest where d: "dropWhile P s = x # rest"
    by (cases "dropWhile P s") auto
  then have "\<not> P x"
    using hd_dropWhile [of P s] by simp
  moreover have "s = takeWhile P s @ x # rest"
    using takeWhile_dropWhile_id [of P s] d by simp
  ultimately show ?thesis using d by simp
qed

lemma props_literal: \<open>u ''properties="'' = 112 # tl (u ''properties="'')\<close> \<open>length (u ''properties="'') = 12\<close>
  by (simp_all add: u_def)

lemma match_nav_props_sound:
  assumes "match_nav_props s = Some n"
  shows \<open>\<exists>ws v rest. s = ws @ u ''properties="'' @ v @ u ''"'' @ rest
     \<and> list_all isspace ws \<and> list_all (\<lambda>c. c \<noteq> 34) v \<and> sublist (u ''nav'') v
     \<and> n = length (ws @ u ''properties="'' @ v @ u ''"'')\<close>
proof -
  let ?ws = "takeWhile isspace s" and ?r = "dropWhile isspace s"
  let ?r1 = "drop 12 ?r"
  let ?v = "takeWhile (\<lambda>c. c \<noteq> 34) ?r1" and ?r2 = "dropWhile (\<lambda>c. c \<noteq> 34) ?r1"
  from assms have pre: \<open>prefix (u ''properties="'') ?r\<close>
    and r2: "?r2 \<noteq> []" and nav: "sublist (u ''nav'') ?v"
    and n: "n = length ?ws + 12 + length ?v + 1"
    by (auto simp: match_nav_props_def Let_def split: if_splits)
  from pre have r: \<open>?r = u ''properties="'' @ ?r1\<close>
    by (auto simp: prefix_def props_literal(2))
  from drop_while_split [OF r2] obtain rest where rest: "?r1 = ?v @ hd ?r2 # rest" and q: "hd ?r2 = 34"
    by auto
  have s: \<open>s = ?ws @ u ''properties="'' @ ?v @ u ''"'' @ rest\<close>
  proof -
    have "s = ?ws @ ?r" by simp
    also have \<open>\<dots> = ?ws @ u ''properties="'' @ ?r1\<close> using r by simp
    also have \<open>\<dots> = ?ws @ u ''properties="'' @ ?v @ u ''"'' @ rest\<close>
      using rest q by (simp add: u_def)
    finally show ?thesis .
  qed
  have ws: "list_all isspace ?ws"
    by (auto simp: list_all_iff dest: set_takeWhileD)
  have v: "list_all (\<lambda>c. c \<noteq> 34) ?v"
    by (auto simp: list_all_iff dest: set_takeWhileD)
  from n have n': \<open>n = length (?ws @ u ''properties="'' @ ?v @ u ''"'')\<close>
    by (simp add: props_literal(2) u_def)
  from s ws v nav n' show ?thesis by blast
qed

lemma match_nav_props_complete:
  assumes "list_all isspace ws" and "list_all (\<lambda>c. c \<noteq> 34) v" and "sublist (u ''nav'') v"
  shows \<open>match_nav_props (ws @ u ''properties="'' @ v @ u ''"'' @ rest)
     = Some (length (ws @ u ''properties="'' @ v @ u ''"''))\<close>
proof -
  let ?s = \<open>ws @ u ''properties="'' @ v @ u ''"'' @ rest\<close>
  have p: "\<not> isspace 112" by (simp add: isspace_def)
  have t: "takeWhile isspace ?s = ws" and d: \<open>dropWhile isspace ?s = u ''properties="'' @ v @ u ''"'' @ rest\<close>
    using takeWhile_run [OF assms(1), of \<open>u ''properties="'' @ v @ u ''"'' @ rest\<close>] p
    by (simp_all add: u_def)
  have r1: \<open>drop 12 (u ''properties="'' @ v @ u ''"'' @ rest) = v @ u ''"'' @ rest\<close>
    by (simp add: props_literal(2))
  have tv: \<open>takeWhile (\<lambda>c. c \<noteq> 34) (v @ u ''"'' @ rest) = v\<close>
    and dv: \<open>dropWhile (\<lambda>c. c \<noteq> 34) (v @ u ''"'' @ rest) = u ''"'' @ rest\<close>
    using takeWhile_run [OF assms(2), of \<open>u ''"'' @ rest\<close>] by (simp_all add: u_def)
  have ne: \<open>u ''"'' @ rest \<noteq> []\<close> by (simp add: u_def)
  show ?thesis
    unfolding match_nav_props_def Let_def t d r1 tv dv
    using assms(3) ne by (simp add: props_literal(2) u_def)
qed

lemma sub_nav_props_leftmost:
  "\<exists>rs tail. s = concat (map removal_text rs) @ tail
     \<and> sub_nav_props s = concat (map kept rs) @ tail
     \<and> list_all removal_ok rs \<and> removals_leftmost rs tail"
proof (induction s rule: sub_nav_props.induct)
  case 1
  show ?case by (intro exI [of _ "[]"]) simp
next
  case (2 c cs)
  show ?case
  proof (cases "match_nav_props (c # cs)")
    case None
    from "2.IH"(1) [OF None] obtain rs tail where ih: "cs = concat (map removal_text rs) @ tail"
        "sub_nav_props cs = concat (map kept rs) @ tail" "list_all removal_ok rs"
        "removals_leftmost rs tail"
      by blast
    show ?thesis
    proof (cases rs)
      case Nil
      with ih None show ?thesis
        by (intro exI [of _ "[]"] exI [of _ "c # tail"]) simp
    next
      case (Cons r rs')
      obtain k ws v where r: "r = Removal k ws v" by (cases r)
      from ih None Cons r show ?thesis
        by (intro exI [of _ "Removal (c # k) ws v # rs'"] exI [of _ tail]) simp
    qed
  next
    case (Some n)
    from match_nav_props_sound [OF Some] obtain ws v rest where
      m: \<open>c # cs = ws @ u ''properties="'' @ v @ u ''"'' @ rest\<close>
        "list_all isspace ws" "list_all (\<lambda>c. c \<noteq> 34) v" "sublist (u ''nav'') v"
        \<open>n = length (ws @ u ''properties="'' @ v @ u ''"'')\<close>
      by blast
    have d: "drop n (c # cs) = rest"
      unfolding m(1) m(5) by simp
    from "2.IH"(2) [OF Some] d obtain rs tail where ih: "rest = concat (map removal_text rs) @ tail"
        "sub_nav_props rest = concat (map kept rs) @ tail" "list_all removal_ok rs"
        "removals_leftmost rs tail"
      by auto
    have "c # cs = concat (map removal_text (Removal [] ws v # rs)) @ tail"
      unfolding m(1) ih(1) by simp
    moreover have "sub_nav_props (c # cs) = concat (map kept (Removal [] ws v # rs)) @ tail"
      using Some d ih(2) by simp
    moreover have "list_all removal_ok (Removal [] ws v # rs)"
      using m(2,3,4) ih(3) by simp
    moreover have "removals_leftmost (Removal [] ws v # rs) tail"
      using ih(4) by simp
    ultimately show ?thesis by blast
  qed
qed

lemma match_nav_props_iff:
  \<open>match_nav_props s \<noteq> None \<longleftrightarrow>
     (\<exists>ws v rest. s = ws @ u ''properties="'' @ v @ u ''"'' @ rest
        \<and> list_all isspace ws \<and> list_all (\<lambda>c. c \<noteq> 34) v \<and> sublist (u ''nav'') v)\<close>
proof
  assume "match_nav_props s \<noteq> None"
  then obtain n where "match_nav_props s = Some n" by auto
  from match_nav_props_sound [OF this]
  show \<open>\<exists>ws v rest. s = ws @ u ''properties="'' @ v @ u ''"'' @ rest
        \<and> list_all isspace ws \<and> list_all (\<lambda>c. c \<noteq> 34) v \<and> sublist (u ''nav'') v\<close>
    by blast
next
  assume \<open>\<exists>ws v rest. s = ws @ u ''properties="'' @ v @ u ''"'' @ rest
        \<and> list_all isspace ws \<and> list_all (\<lambda>c. c \<noteq> 34) v \<and> sublist (u ''nav'') v\<close>
  then obtain ws v rest where \<open>s = ws @ u ''properties="'' @ v @ u ''"'' @ rest\<close>
      "list_all isspace ws" "list_all (\<lambda>c. c \<noteq> 34) v" "sublist (u ''nav'') v"
    by blast
  with match_nav_props_complete [of ws v rest] show "match_nav_props s \<noteq> None"
    by simp
qed

lemma sub_nav_props_removes:
  assumes "list_all isspace ws" and "list_all (\<lambda>c. c \<noteq> 34) v" and "sublist (u ''nav'') v"
  shows \<open>sub_nav_props (ws @ u ''properties="'' @ v @ u ''"'' @ rest) = sub_nav_props rest\<close>
proof -
  let ?m = \<open>ws @ u ''properties="'' @ v @ u ''"''\<close>
  obtain c cs where cs: "?m @ rest = c # cs"
    by (cases "?m @ rest") (simp_all add: u_def)
  have "match_nav_props (c # cs) = Some (length ?m)"
    using match_nav_props_complete [OF assms, of rest] cs by simp
  then have "sub_nav_props (c # cs) = sub_nav_props (drop (length ?m) (c # cs))"
    by simp
  also have "drop (length ?m) (c # cs) = rest"
    unfolding cs [symmetric] by simp
  finally show ?thesis
    using cs by simp
qed

lemma spine_literal: \<open>length (u ''<spine'') = 6\<close>
  by (simp add: u_def)

lemma match_spine_sound:
  assumes "match_spine s = Some (g, n)"
  shows \<open>\<exists>rest. s = u ''<spine'' @ g @ u ''>'' @ rest \<and> list_all (\<lambda>c. c \<noteq> 62) g
     \<and> n = length (u ''<spine'' @ g @ u ''>'')\<close>
proof -
  let ?r = "drop 6 s"
  let ?g = "takeWhile (\<lambda>c. c \<noteq> 62) ?r" and ?r2 = "dropWhile (\<lambda>c. c \<noteq> 62) ?r"
  from assms have pre: \<open>prefix (u ''<spine'') s\<close> and r2: "?r2 \<noteq> []"
    and g: "g = ?g" and n: "n = 6 + length ?g + 1"
    by (auto simp: match_spine_def Let_def split: if_splits)
  from pre have s: \<open>s = u ''<spine'' @ ?r\<close>
    by (auto simp: prefix_def spine_literal)
  from drop_while_split [OF r2] obtain rest where rest: "?r = ?g @ hd ?r2 # rest" and q: "hd ?r2 = 62"
    by auto
  have \<open>s = u ''<spine'' @ g @ u ''>'' @ rest\<close>
  proof -
    have \<open>s = u ''<spine'' @ ?r\<close> by (rule s)
    also have \<open>\<dots> = u ''<spine'' @ g @ u ''>'' @ rest\<close>
      using rest q g by (simp add: u_def)
    finally show ?thesis .
  qed
  moreover have "list_all (\<lambda>c. c \<noteq> 62) g"
    unfolding g by (auto simp: list_all_iff dest: set_takeWhileD)
  moreover have \<open>n = length (u ''<spine'' @ g @ u ''>'')\<close>
    using n g by (simp add: spine_literal u_def)
  ultimately show ?thesis by blast
qed

lemma match_spine_complete:
  assumes "list_all (\<lambda>c. c \<noteq> 62) g"
  shows \<open>match_spine (u ''<spine'' @ g @ u ''>'' @ rest) = Some (g, length (u ''<spine'' @ g @ u ''>''))\<close>
proof -
  have r: \<open>drop 6 (u ''<spine'' @ g @ u ''>'' @ rest) = g @ u ''>'' @ rest\<close>
    by (simp add: spine_literal)
  have tg: \<open>takeWhile (\<lambda>c. c \<noteq> 62) (g @ u ''>'' @ rest) = g\<close>
    and dg: \<open>dropWhile (\<lambda>c. c \<noteq> 62) (g @ u ''>'' @ rest) = u ''>'' @ rest\<close>
    using takeWhile_run [OF assms, of \<open>u ''>'' @ rest\<close>] by (simp_all add: u_def)
  have ne: \<open>u ''>'' @ rest \<noteq> []\<close> by (simp add: u_def)
  show ?thesis
    unfolding match_spine_def Let_def r tg dg
    using ne by (simp add: spine_literal u_def)
qed

lemma sub_spine_toc_leftmost:
  "\<exists>ts tail. s = concat (map spine_text ts) @ tail
     \<and> sub_spine_toc s = concat (map spine_patched ts) @ tail
     \<and> list_all spine_ok ts \<and> spines_leftmost ts tail"
proof (induction s rule: sub_spine_toc.induct)
  case 1
  show ?case by (intro exI [of _ "[]"]) simp
next
  case (2 c cs)
  show ?case
  proof (cases "match_spine (c # cs)")
    case None
    from "2.IH"(1) [OF None] obtain ts tail where ih: "cs = concat (map spine_text ts) @ tail"
        "sub_spine_toc cs = concat (map spine_patched ts) @ tail" "list_all spine_ok ts"
        "spines_leftmost ts tail"
      by blast
    show ?thesis
    proof (cases ts)
      case Nil
      with ih None show ?thesis
        by (intro exI [of _ "[]"] exI [of _ "c # tail"]) simp
    next
      case (Cons t ts')
      obtain k g where t: "t = SpineTag k g" by (cases t)
      from ih None Cons t show ?thesis
        by (intro exI [of _ "SpineTag (c # k) g # ts'"] exI [of _ tail]) simp
    qed
  next
    case (Some m)
    obtain g n where gn: "m = (g, n)" by (cases m)
    from match_spine_sound [OF Some [unfolded gn]] obtain rest where
      m: \<open>c # cs = u ''<spine'' @ g @ u ''>'' @ rest\<close> "list_all (\<lambda>c. c \<noteq> 62) g"
        \<open>n = length (u ''<spine'' @ g @ u ''>'')\<close>
      by blast
    have d: "drop n (c # cs) = rest"
      unfolding m(1) m(3) by simp
    from "2.IH"(2) [OF Some [unfolded gn] refl] d obtain ts tail where
      ih: "rest = concat (map spine_text ts) @ tail"
        "sub_spine_toc rest = concat (map spine_patched ts) @ tail" "list_all spine_ok ts"
        "spines_leftmost ts tail"
      by auto
    have "c # cs = concat (map spine_text (SpineTag [] g # ts)) @ tail"
      unfolding m(1) ih(1) by simp
    moreover have "sub_spine_toc (c # cs) = concat (map spine_patched (SpineTag [] g # ts)) @ tail"
      using Some gn d ih(2) by simp
    moreover have "list_all spine_ok (SpineTag [] g # ts)"
      using m(2) ih(3) by simp
    moreover have "spines_leftmost (SpineTag [] g # ts) tail"
      using ih(4) by simp
    ultimately show ?thesis by blast
  qed
qed

lemma match_spine_iff:
  \<open>match_spine s \<noteq> None \<longleftrightarrow>
     (\<exists>g rest. s = u ''<spine'' @ g @ u ''>'' @ rest \<and> list_all (\<lambda>c. c \<noteq> 62) g)\<close>
proof
  assume "match_spine s \<noteq> None"
  then obtain g n where "match_spine s = Some (g, n)" by auto
  from match_spine_sound [OF this]
  show \<open>\<exists>g rest. s = u ''<spine'' @ g @ u ''>'' @ rest \<and> list_all (\<lambda>c. c \<noteq> 62) g\<close>
    by blast
next
  assume \<open>\<exists>g rest. s = u ''<spine'' @ g @ u ''>'' @ rest \<and> list_all (\<lambda>c. c \<noteq> 62) g\<close>
  then obtain g rest where \<open>s = u ''<spine'' @ g @ u ''>'' @ rest\<close> "list_all (\<lambda>c. c \<noteq> 62) g"
    by blast
  with match_spine_complete [of g rest] show "match_spine s \<noteq> None"
    by simp
qed

lemma replace_str_at_occurrence:
  assumes "old \<noteq> []"
  shows "replace_str old new (old @ rest) = new @ replace_str old new rest"
proof -
  from assms obtain c cs where cs: "old @ rest = c # cs"
    by (cases old) auto
  have "prefix old (c # cs)"
    unfolding cs [symmetric] by simp
  with assms have "replace_str old new (c # cs) = new @ replace_str old new (drop (length old) (c # cs))"
    by simp
  also have "drop (length old) (c # cs) = rest"
    unfolding cs [symmetric] by simp
  finally show ?thesis using cs by simp
qed

lemma replace_str_absent:
  assumes "\<not> sublist old s"
  shows "replace_str old new s = s"
  using assms
proof (induction old new s rule: replace_str.induct)
  case (1 old new)
  show ?case by simp
next
  case (2 old new c cs)
  from "2.prems" have np: "\<not> prefix old (c # cs)" and ns: "\<not> sublist old cs"
    by (simp_all add: sublist_Cons_right)
  with "2.IH"(2) show ?case by simp
qed

lemma sub_nav_props_absent:
  assumes \<open>\<not> sublist (u ''properties="'') s\<close>
  shows "sub_nav_props s = s"
proof -
  from sub_nav_props_leftmost [of s] obtain rs tail where p: "s = concat (map removal_text rs) @ tail"
      "sub_nav_props s = concat (map kept rs) @ tail"
    by blast
  have "rs = []"
  proof (rule ccontr)
    assume "rs \<noteq> []"
    then obtain r rs' where rs: "rs = r # rs'" by (cases rs) auto
    obtain k ws v where r: "r = Removal k ws v" by (cases r)
    have \<open>s = (k @ ws) @ u ''properties="'' @ (v @ u ''"'' @ concat (map removal_text rs') @ tail)\<close>
      unfolding p(1) rs r by simp
    then have \<open>sublist (u ''properties="'') s\<close>
      unfolding sublist_def by blast
    with assms show False by contradiction
  qed
  with p show ?thesis by simp
qed

section \<open>The package patcher\<close>

lemma sq_opf_patch: "patch_opf sq_opf_text = sq_opf_patched"
proof -
  have s1: \<open>replace_str (u ''version="3.0"'') (u ''version="2.0"'') sq_opf_text = sq_opf_text\<close>
    by (rule replace_str_absent) (simp add: sq_opf_text_def eval_text)
  have s2: "sub_nav_props sq_opf_text = sq_opf_text"
    by (rule sub_nav_props_absent) (simp add: sq_opf_text_def eval_text)
  have s3: \<open>\<not> sublist (u ''toc.ncx'') sq_opf_text\<close>
    by (simp add: sq_opf_text_def eval_text)
  have s4: \<open>replace_str (u ''</manifest>'') (item_ncx @ u ''\<newline></manifest>'') sq_opf_text
      = u ''<package xmlns="http://www.idpf.org/2007/opf" version='3.0'><manifest><item id="nav" href="nav.xhtml" properties='nav'/><item id="ncx" href="toc.ncx" media-type="application/x-dtbncx+xml"/>\<newline></manifest><spine><itemref idref="nav"/></spine></package>''\<close>
    by (simp add: sq_opf_text_def eval_text)
  have s5: \<open>sub_spine_toc (u ''<package xmlns="http://www.idpf.org/2007/opf" version='3.0'><manifest><item id="nav" href="nav.xhtml" properties='nav'/><item id="ncx" href="toc.ncx" media-type="application/x-dtbncx+xml"/>\<newline></manifest><spine><itemref idref="nav"/></spine></package>'')
      = sq_opf_patched\<close>
    by (simp add: sq_opf_patched_def eval_text)
  show ?thesis
    by (simp only: patch_opf_def Let_def s1 s2 s3 simp_thms if_True s4 s5)
qed

lemma titled_opf_patch: "patch_opf titled_opf_text = titled_opf_patched"
proof -
  have s1: \<open>replace_str (u ''version="3.0"'') (u ''version="2.0"'') titled_opf_text = titled_opf_patched\<close>
    by (simp add: titled_opf_text_def titled_opf_patched_def eval_text)
  have s2: "sub_nav_props titled_opf_patched = titled_opf_patched"
    by (rule sub_nav_props_absent) (simp add: titled_opf_patched_def eval_text)
  have s3: \<open>sublist (u ''toc.ncx'') titled_opf_patched\<close>
    by (simp add: titled_opf_patched_def eval_text)
  show ?thesis
    by (simp only: patch_opf_def Let_def s1 s2 s3 simp_thms if_False)
qed

text \<open>
  C5, as the claim states it, fails: in \<open>sq_opf_text\<close> the version declaration and the
  \<open>properties\<close> attribute with the navigation marker are written with single quotes, and
  the output still declares version 3.0 and still has the attribute (the manifest item and
  the spine attribute are inserted all the same).
\<close>

theorem patch_single_quotes_counterexample: "patch_opf sq_opf_text = sq_opf_patched"
  by (rule sq_opf_patch)

text \<open>
  C5, amended. The patcher works on the text. The input is a sequence of pieces, none of
  which contains \<open>version="3.0"\<close>, joined by \<open>version="3.0"\<close>, and the first step joins
  the same pieces by \<open>version="2.0"\<close>. The result of that is a sequence of kept texts,
  each followed by a removed span (optional white space, \<open>properties="\<close>, a value without
  double quote that contains \<open>nav\<close>, and the closing double quote), and a last kept text,
  where no such span begins inside a kept text; the second step gives the kept texts in
  their order, so that every such span goes, as a whole, and nothing else changes. Then
  the conditional insertion is applied. Step by step: a text that begins with
  \<open>version="3.0"\<close> gets it replaced, and a text that does not keeps its first character;
  a text begins with a match of the regular expression exactly when it begins with such
  a span, then it loses the span, and otherwise it keeps its first character; the empty
  text stays empty. A text
  without \<open>version="3.0"\<close> and without \<open>properties="\<close> that contains \<open>toc.ncx\<close> is
  returned as it is. A declaration or an attribute written otherwise (with single quotes,
  or with spaces around the equals sign) is not touched.
\<close>

theorem patch_text_substitutions:
  \<open>(\<exists>ps rs tail.
       ps \<noteq> [] \<and> content = join_str (u ''version="3.0"'') ps
       \<and> list_all (\<lambda>p. \<not> sublist (u ''version="3.0"'') p) ps
       \<and> join_str (u ''version="2.0"'') ps = concat (map removal_text rs) @ tail
       \<and> list_all removal_ok rs
       \<and> removals_leftmost rs tail
       \<and> patch_opf content =
           (if sublist (u ''toc.ncx'') (concat (map kept rs) @ tail)
            then concat (map kept rs) @ tail
            else sub_spine_toc (replace_str (u ''</manifest>'') (item_ncx @ u ''\<newline></manifest>'')
                   (concat (map kept rs) @ tail))))
   \<and> replace_str (u ''version="3.0"'') (u ''version="2.0"'') (u ''version="3.0"'' @ rest)
       = u ''version="2.0"'' @ replace_str (u ''version="3.0"'') (u ''version="2.0"'') rest
   \<and> (\<not> prefix (u ''version="3.0"'') (c # cs) \<longrightarrow>
        replace_str (u ''version="3.0"'') (u ''version="2.0"'') (c # cs)
          = c # replace_str (u ''version="3.0"'') (u ''version="2.0"'') cs)
   \<and> (match_nav_props s \<noteq> None)
       = (\<exists>ws v rest. s = ws @ u ''properties="'' @ v @ u ''"'' @ rest
            \<and> list_all isspace ws \<and> list_all (\<lambda>c. c \<noteq> 34) v \<and> sublist (u ''nav'') v)
   \<and> (list_all isspace ws \<and> list_all (\<lambda>c. c \<noteq> 34) v \<and> sublist (u ''nav'') v \<longrightarrow>
        sub_nav_props (ws @ u ''properties="'' @ v @ u ''"'' @ rest) = sub_nav_props rest)
   \<and> (match_nav_props (c # cs) = None \<longrightarrow> sub_nav_props (c # cs) = c # sub_nav_props cs)
   \<and> (\<not> sublist (u ''version="3.0"'') content \<and> \<not> sublist (u ''properties="'') content
        \<and> sublist (u ''toc.ncx'') content \<longrightarrow> patch_opf content = content)
   \<and> replace_str (u ''version="3.0"'') (u ''version="2.0"'') [] = []
   \<and> sub_nav_props [] = []\<close>
proof (intro conjI impI)
  have ne: \<open>u ''version="3.0"'' \<noteq> []\<close> by (simp add: u_def)
  from replace_str_pieces [OF ne, of content \<open>u ''version="2.0"''\<close>] obtain ps where
    ps: "ps \<noteq> []" \<open>content = join_str (u ''version="3.0"'') ps\<close>
      \<open>replace_str (u ''version="3.0"'') (u ''version="2.0"'') content = join_str (u ''version="2.0"'') ps\<close>
      \<open>list_all (\<lambda>p. \<not> sublist (u ''version="3.0"'') p) ps\<close>
    by blast
  from sub_nav_props_leftmost [of \<open>join_str (u ''version="2.0"'') ps\<close>] obtain rs tail where
    rs: \<open>join_str (u ''version="2.0"'') ps = concat (map removal_text rs) @ tail\<close>
      \<open>sub_nav_props (join_str (u ''version="2.0"'') ps) = concat (map kept rs) @ tail\<close>
      "list_all removal_ok rs" "removals_leftmost rs tail"
    by blast
  have \<open>patch_opf content =
           (if sublist (u ''toc.ncx'') (concat (map kept rs) @ tail)
            then concat (map kept rs) @ tail
            else sub_spine_toc (replace_str (u ''</manifest>'') (item_ncx @ u ''\<newline></manifest>'')
                   (concat (map kept rs) @ tail)))\<close>
    unfolding patch_opf_def Let_def ps(3) rs(2) by simp
  with ps(1,2,4) rs(1,3,4)
  show \<open>\<exists>ps rs tail.
       ps \<noteq> [] \<and> content = join_str (u ''version="3.0"'') ps
       \<and> list_all (\<lambda>p. \<not> sublist (u ''version="3.0"'') p) ps
       \<and> join_str (u ''version="2.0"'') ps = concat (map removal_text rs) @ tail
       \<and> list_all removal_ok rs
       \<and> removals_leftmost rs tail
       \<and> patch_opf content =
           (if sublist (u ''toc.ncx'') (concat (map kept rs) @ tail)
            then concat (map kept rs) @ tail
            else sub_spine_toc (replace_str (u ''</manifest>'') (item_ncx @ u ''\<newline></manifest>'')
                   (concat (map kept rs) @ tail)))\<close>
    by blast
next
  have ne: \<open>u ''version="3.0"'' \<noteq> []\<close> by (simp add: u_def)
  show \<open>replace_str (u ''version="3.0"'') (u ''version="2.0"'') (u ''version="3.0"'' @ rest)
       = u ''version="2.0"'' @ replace_str (u ''version="3.0"'') (u ''version="2.0"'') rest\<close>
    by (rule replace_str_at_occurrence [OF ne])
next
  assume \<open>\<not> prefix (u ''version="3.0"'') (c # cs)\<close>
  then show \<open>replace_str (u ''version="3.0"'') (u ''version="2.0"'') (c # cs)
          = c # replace_str (u ''version="3.0"'') (u ''version="2.0"'') cs\<close>
    by simp
next
  show \<open>(match_nav_props s \<noteq> None)
       = (\<exists>ws v rest. s = ws @ u ''properties="'' @ v @ u ''"'' @ rest
            \<and> list_all isspace ws \<and> list_all (\<lambda>c. c \<noteq> 34) v \<and> sublist (u ''nav'') v)\<close>
    by (rule match_nav_props_iff)
next
  assume \<open>list_all isspace ws \<and> list_all (\<lambda>c. c \<noteq> 34) v \<and> sublist (u ''nav'') v\<close>
  then show \<open>sub_nav_props (ws @ u ''properties="'' @ v @ u ''"'' @ rest) = sub_nav_props rest\<close>
    using sub_nav_props_removes by blast
next
  assume "match_nav_props (c # cs) = None"
  then show "sub_nav_props (c # cs) = c # sub_nav_props cs"
    by simp
next
  assume a: \<open>\<not> sublist (u ''version="3.0"'') content \<and> \<not> sublist (u ''properties="'') content
        \<and> sublist (u ''toc.ncx'') content\<close>
  then have \<open>replace_str (u ''version="3.0"'') (u ''version="2.0"'') content = content\<close>
    and "sub_nav_props content = content"
    by (simp_all add: replace_str_absent sub_nav_props_absent)
  with a show "patch_opf content = content"
    by (simp add: patch_opf_def Let_def)
next
  show \<open>replace_str (u ''version="3.0"'') (u ''version="2.0"'') [] = []\<close>
    by simp
next
  show "sub_nav_props [] = []"
    by simp
qed

theorem patch_text_substitutions_witness:
  \<open>list_all isspace (u '' '') \<and> list_all (\<lambda>c. c \<noteq> 34) (u ''cover nav'') \<and> sublist (u ''nav'') (u ''cover nav'')
   \<and> sub_nav_props (u '' properties="cover nav"/>'') = u ''/>''
   \<and> match_nav_props (u ''m properties="nav"/>'') = None
   \<and> sub_nav_props (u ''m properties="nav"/>'') = u ''m/>''
   \<and> \<not> prefix (u ''version="3.0"'') (u ''e version="3.0">'')
   \<and> replace_str (u ''version="3.0"'') (u ''version="2.0"'') (u ''e version="3.0">'') = u ''e version="2.0">''
   \<and> removals_leftmost [Removal (u ''<item id="nav"'') (u '' '') (u ''nav'')] (u ''/>'')
   \<and> \<not> removals_leftmost [] (u ''<item id="nav" properties="nav"/>'')
   \<and> \<not> sublist (u ''version="3.0"'') opf2_bytes \<and> \<not> sublist (u ''properties="'') opf2_bytes
   \<and> sublist (u ''toc.ncx'') opf2_bytes
   \<and> patch_opf opf2_bytes = opf2_bytes\<close>
proof -
  have a: \<open>list_all isspace (u '' '')\<close> \<open>list_all (\<lambda>c. c \<noteq> 34) (u ''cover nav'')\<close>
      \<open>sublist (u ''nav'') (u ''cover nav'')\<close>
    by (simp_all add: eval_text)
  have t: \<open>sub_nav_props (u ''/>'') = u ''/>''\<close>
    by (simp add: eval_text)
  have e: \<open>u '' properties="cover nav"/>'' = u '' '' @ u ''properties="'' @ u ''cover nav'' @ u ''"'' @ u ''/>''\<close>
    by (simp add: u_def)
  from a patch_text_substitutions [where ws = \<open>u '' ''\<close> and v = \<open>u ''cover nav''\<close> and rest = \<open>u ''/>''\<close>]
  have 1: \<open>sub_nav_props (u '' properties="cover nav"/>'') = u ''/>''\<close>
    unfolding e t by blast
  have n: \<open>match_nav_props (u ''m properties="nav"/>'') = None\<close>
    by (simp add: eval_text)
  have m: \<open>u ''m properties="nav"/>'' = 109 # u '' properties="nav"/>''\<close> \<open>u ''m/>'' = 109 # u ''/>''\<close>
    by (simp_all add: u_def)
  have t2: \<open>sub_nav_props (u '' properties="nav"/>'') = u ''/>''\<close>
    by (simp add: eval_text)
  from n patch_text_substitutions [where c = 109 and cs = \<open>u '' properties="nav"/>''\<close>]
  have 3: \<open>sub_nav_props (u ''m properties="nav"/>'') = u ''m/>''\<close>
    unfolding m t2 by blast
  have np: \<open>\<not> prefix (u ''version="3.0"'') (u ''e version="3.0">'')\<close>
    by (simp add: u_def)
  have v: \<open>u ''e version="3.0">'' = 101 # u '' version="3.0">''\<close> \<open>u ''e version="2.0">'' = 101 # u '' version="2.0">''\<close>
    by (simp_all add: u_def)
  have t3: \<open>replace_str (u ''version="3.0"'') (u ''version="2.0"'') (u '' version="3.0">'') = u '' version="2.0">''\<close>
    by (simp add: eval_text)
  from np patch_text_substitutions [where c = 101 and cs = \<open>u '' version="3.0">''\<close>]
  have 4: \<open>replace_str (u ''version="3.0"'') (u ''version="2.0"'') (u ''e version="3.0">'') = u ''e version="2.0">''\<close>
    unfolding v t3 by blast
  have l1: \<open>removals_leftmost [Removal (u ''<item id="nav"'') (u '' '') (u ''nav'')] (u ''/>'')\<close>
    by (simp add: eval_text suffixes_tailrec)
  have l2: \<open>\<not> removals_leftmost [] (u ''<item id="nav" properties="nav"/>'')\<close>
    by (simp add: eval_text suffixes_tailrec)
  have b: \<open>\<not> sublist (u ''version="3.0"'') opf2_bytes\<close> \<open>\<not> sublist (u ''properties="'') opf2_bytes\<close>
      \<open>sublist (u ''toc.ncx'') opf2_bytes\<close>
    by (simp_all add: opf2_bytes_def eval_text)
  from b patch_text_substitutions [where content = opf2_bytes]
  have 2: "patch_opf opf2_bytes = opf2_bytes"
    by blast
  from a 1 n 3 np 4 l1 l2 b 2 show ?thesis by blast
qed

text \<open>
  C6, as the claim states it, fails: no manifest item of \<open>titled_opf_text\<close> references a
  file named \<open>toc.ncx\<close> (its only item is \<open>c1.xhtml\<close>), but the title contains the text
  \<open>toc.ncx\<close>, and the patcher inserts neither the manifest item nor the spine attribute.
\<close>

theorem ncx_registration_counterexample:
  "\<not> manifest_refs_toc_ncx titled_opf_tree \<and> patch_opf titled_opf_text = titled_opf_patched"
proof -
  have "\<not> manifest_refs_toc_ncx titled_opf_tree"
    by (simp add: manifest_refs_toc_ncx_def titled_opf_tree_def xml_defs path_defs u_def)
  with titled_opf_patch show ?thesis by simp
qed

text \<open>
  C6, amended. Let \<open>pre\<close> be the text of the package document after the first two
  substitutions. When \<open>pre\<close> contains the text \<open>toc.ncx\<close> anywhere (as it does when a
  manifest item has it in its href), the patcher returns \<open>pre\<close>: nothing is inserted.
  When \<open>pre\<close> does not contain \<open>toc.ncx\<close>, the item
  \<open><item id="ncx" href="toc.ncx" media-type="application/x-dtbncx+xml"/>\<close> and a line
  break are inserted immediately before every \<open></manifest>\<close>, and then every tag text
  \<open><spine...>\<close> gets \<open> toc="ncx"\<close> before its \<open>>\<close>: the text is a sequence of such
  tags, each with the text before it, and a last text, where no such tag begins inside
  the texts between; nothing else changes. Step by step: a text begins with a match of
  the regular expression exactly when it begins with \<open><spine\<close>, characters other than
  \<open>>\<close>, and \<open>>\<close>; then the tag is patched, and otherwise the text keeps its first
  character; a text that begins with \<open></manifest>\<close> gets the item and the line break
  before it, and a text that does not keeps its first character; the empty text stays
  empty.
\<close>

theorem ncx_registration:
  \<open>(sublist (u ''toc.ncx'') (sub_nav_props (replace_str (u ''version="3.0"'') (u ''version="2.0"'') content)) \<longrightarrow>
      patch_opf content = sub_nav_props (replace_str (u ''version="3.0"'') (u ''version="2.0"'') content))
   \<and> (\<not> sublist (u ''toc.ncx'') (sub_nav_props (replace_str (u ''version="3.0"'') (u ''version="2.0"'') content)) \<longrightarrow>
      (\<exists>ps ts tail.
         ps \<noteq> []
         \<and> sub_nav_props (replace_str (u ''version="3.0"'') (u ''version="2.0"'') content)
             = join_str (u ''</manifest>'') ps
         \<and> list_all (\<lambda>p. \<not> sublist (u ''</manifest>'') p) ps
         \<and> join_str (item_ncx @ u ''\<newline></manifest>'') ps = concat (map spine_text ts) @ tail
         \<and> list_all spine_ok ts
         \<and> spines_leftmost ts tail
         \<and> patch_opf content = concat (map spine_patched ts) @ tail))
   \<and> (match_spine s \<noteq> None)
       = (\<exists>g rest. s = u ''<spine'' @ g @ u ''>'' @ rest \<and> list_all (\<lambda>c. c \<noteq> 62) g)
   \<and> (list_all (\<lambda>c. c \<noteq> 62) g \<longrightarrow>
        sub_spine_toc (u ''<spine'' @ g @ u ''>'' @ rest)
          = u ''<spine'' @ g @ u '' toc="ncx">'' @ sub_spine_toc rest)
   \<and> (match_spine (c # cs) = None \<longrightarrow> sub_spine_toc (c # cs) = c # sub_spine_toc cs)
   \<and> sub_spine_toc [] = []
   \<and> replace_str (u ''</manifest>'') (item_ncx @ u ''\<newline></manifest>'') (u ''</manifest>'' @ rest)
       = item_ncx @ u ''\<newline></manifest>''
         @ replace_str (u ''</manifest>'') (item_ncx @ u ''\<newline></manifest>'') rest
   \<and> (\<not> prefix (u ''</manifest>'') (c # cs) \<longrightarrow>
        replace_str (u ''</manifest>'') (item_ncx @ u ''\<newline></manifest>'') (c # cs)
          = c # replace_str (u ''</manifest>'') (item_ncx @ u ''\<newline></manifest>'') cs)
   \<and> replace_str (u ''</manifest>'') (item_ncx @ u ''\<newline></manifest>'') [] = []\<close>
proof (intro conjI impI)
  assume \<open>sublist (u ''toc.ncx'') (sub_nav_props (replace_str (u ''version="3.0"'') (u ''version="2.0"'') content))\<close>
  then show \<open>patch_opf content = sub_nav_props (replace_str (u ''version="3.0"'') (u ''version="2.0"'') content)\<close>
    by (simp add: patch_opf_def Let_def)
next
  let ?pre = \<open>sub_nav_props (replace_str (u ''version="3.0"'') (u ''version="2.0"'') content)\<close>
  assume no: \<open>\<not> sublist (u ''toc.ncx'') ?pre\<close>
  have ne: \<open>u ''</manifest>'' \<noteq> []\<close> by (simp add: u_def)
  from replace_str_pieces [OF ne, of ?pre \<open>item_ncx @ u ''\<newline></manifest>''\<close>] obtain ps where
    ps: "ps \<noteq> []" \<open>?pre = join_str (u ''</manifest>'') ps\<close>
      \<open>replace_str (u ''</manifest>'') (item_ncx @ u ''\<newline></manifest>'') ?pre
         = join_str (item_ncx @ u ''\<newline></manifest>'') ps\<close>
      \<open>list_all (\<lambda>p. \<not> sublist (u ''</manifest>'') p) ps\<close>
    by blast
  from sub_spine_toc_leftmost [of \<open>join_str (item_ncx @ u ''\<newline></manifest>'') ps\<close>] obtain ts tail where
    ts: \<open>join_str (item_ncx @ u ''\<newline></manifest>'') ps = concat (map spine_text ts) @ tail\<close>
      \<open>sub_spine_toc (join_str (item_ncx @ u ''\<newline></manifest>'') ps) = concat (map spine_patched ts) @ tail\<close>
      "list_all spine_ok ts" "spines_leftmost ts tail"
    by blast
  have "patch_opf content = concat (map spine_patched ts) @ tail"
    using no unfolding patch_opf_def Let_def by (simp add: ps(3) ts(2))
  with ps(1,2,4) ts(1,3,4)
  show \<open>\<exists>ps ts tail.
         ps \<noteq> []
         \<and> ?pre = join_str (u ''</manifest>'') ps
         \<and> list_all (\<lambda>p. \<not> sublist (u ''</manifest>'') p) ps
         \<and> join_str (item_ncx @ u ''\<newline></manifest>'') ps = concat (map spine_text ts) @ tail
         \<and> list_all spine_ok ts
         \<and> spines_leftmost ts tail
         \<and> patch_opf content = concat (map spine_patched ts) @ tail\<close>
    by blast
next
  show \<open>(match_spine s \<noteq> None)
       = (\<exists>g rest. s = u ''<spine'' @ g @ u ''>'' @ rest \<and> list_all (\<lambda>c. c \<noteq> 62) g)\<close>
    by (rule match_spine_iff)
next
  assume g: "list_all (\<lambda>c. c \<noteq> 62) g"
  let ?m = \<open>u ''<spine'' @ g @ u ''>''\<close>
  obtain c cs where cs: "?m @ rest = c # cs"
    by (cases "?m @ rest") (simp_all add: u_def)
  have "match_spine (c # cs) = Some (g, length ?m)"
    using match_spine_complete [OF g, of rest] cs by simp
  then have \<open>sub_spine_toc (c # cs)
      = u ''<spine'' @ g @ u '' toc="ncx">'' @ sub_spine_toc (drop (length ?m) (c # cs))\<close>
    by simp
  also have "drop (length ?m) (c # cs) = rest"
    unfolding cs [symmetric] by simp
  finally show \<open>sub_spine_toc (u ''<spine'' @ g @ u ''>'' @ rest)
          = u ''<spine'' @ g @ u '' toc="ncx">'' @ sub_spine_toc rest\<close>
    using cs by simp
next
  assume "match_spine (c # cs) = None"
  then show "sub_spine_toc (c # cs) = c # sub_spine_toc cs"
    by simp
next
  show "sub_spine_toc [] = []"
    by simp
next
  have ne: \<open>u ''</manifest>'' \<noteq> []\<close> by (simp add: u_def)
  show \<open>replace_str (u ''</manifest>'') (item_ncx @ u ''\<newline></manifest>'') (u ''</manifest>'' @ rest)
       = item_ncx @ u ''\<newline></manifest>''
         @ replace_str (u ''</manifest>'') (item_ncx @ u ''\<newline></manifest>'') rest\<close>
    using replace_str_at_occurrence [OF ne, of \<open>item_ncx @ u ''\<newline></manifest>''\<close> rest] by simp
next
  assume \<open>\<not> prefix (u ''</manifest>'') (c # cs)\<close>
  then show \<open>replace_str (u ''</manifest>'') (item_ncx @ u ''\<newline></manifest>'') (c # cs)
          = c # replace_str (u ''</manifest>'') (item_ncx @ u ''\<newline></manifest>'') cs\<close>
    by simp
next
  show \<open>replace_str (u ''</manifest>'') (item_ncx @ u ''\<newline></manifest>'') [] = []\<close>
    by simp
qed

theorem ncx_registration_witness:
  \<open>\<not> sublist (u ''toc.ncx'') (sub_nav_props (replace_str (u ''version="3.0"'') (u ''version="2.0"'') opf_bytes))
   \<and> (\<exists>ps ts tail. ps \<noteq> [] \<and> opf_stripped = join_str (u ''</manifest>'') ps
         \<and> join_str (item_ncx @ u ''\<newline></manifest>'') ps = concat (map spine_text ts) @ tail
         \<and> spines_leftmost ts tail
         \<and> opf2_bytes = concat (map spine_patched ts) @ tail)
   \<and> patch_opf opf_bytes = opf2_bytes
   \<and> sublist (u ''toc.ncx'') (sub_nav_props (replace_str (u ''version="3.0"'') (u ''version="2.0"'') titled_opf_text))
   \<and> patch_opf titled_opf_text = sub_nav_props (replace_str (u ''version="3.0"'') (u ''version="2.0"'') titled_opf_text)
   \<and> list_all (\<lambda>c. c \<noteq> 62) (u '' id="s"'')
   \<and> sub_spine_toc (u ''<spine id="s"></spine>'') = u ''<spine id="s" toc="ncx"></spine>''
   \<and> match_spine (u ''><spine>'') = None
   \<and> sub_spine_toc (u ''><spine>'') = u ''><spine toc="ncx">''
   \<and> spines_leftmost [SpineTag (u ''</manifest>'') []] (u ''</spine>'')
   \<and> \<not> spines_leftmost [] (u ''</manifest><spine>'')\<close>
proof -
  note no = opf_sample_no_toc [folded opf_sample_stripped]
  note ins = ncx_registration [where content = opf_bytes, THEN conjunct2, THEN conjunct1, rule_format, OF no]
  from ins obtain ps ts tail where
    p: "ps \<noteq> []"
      \<open>sub_nav_props (replace_str (u ''version="3.0"'') (u ''version="2.0"'') opf_bytes) = join_str (u ''</manifest>'') ps\<close>
      \<open>join_str (item_ncx @ u ''\<newline></manifest>'') ps = concat (map spine_text ts) @ tail\<close>
      "spines_leftmost ts tail" "patch_opf opf_bytes = concat (map spine_patched ts) @ tail"
    by blast
  have 1: \<open>\<exists>ps ts tail. ps \<noteq> [] \<and> opf_stripped = join_str (u ''</manifest>'') ps
         \<and> join_str (item_ncx @ u ''\<newline></manifest>'') ps = concat (map spine_text ts) @ tail
         \<and> spines_leftmost ts tail
         \<and> opf2_bytes = concat (map spine_patched ts) @ tail\<close>
    using p unfolding opf_sample_stripped patch_opf_sample by blast
  have pre: \<open>sub_nav_props (replace_str (u ''version="3.0"'') (u ''version="2.0"'') titled_opf_text)
      = titled_opf_patched\<close>
  proof -
    have s1: \<open>replace_str (u ''version="3.0"'') (u ''version="2.0"'') titled_opf_text = titled_opf_patched\<close>
      by (simp add: titled_opf_text_def titled_opf_patched_def eval_text)
    have s2: "sub_nav_props titled_opf_patched = titled_opf_patched"
      by (rule sub_nav_props_absent) (simp add: titled_opf_patched_def eval_text)
    show ?thesis unfolding s1 s2 ..
  qed
  have yes: \<open>sublist (u ''toc.ncx'') (sub_nav_props (replace_str (u ''version="3.0"'') (u ''version="2.0"'') titled_opf_text))\<close>
    unfolding pre by (simp add: titled_opf_patched_def eval_text)
  have 2: \<open>patch_opf titled_opf_text = sub_nav_props (replace_str (u ''version="3.0"'') (u ''version="2.0"'') titled_opf_text)\<close>
    using ncx_registration [where content = titled_opf_text, THEN conjunct1, rule_format, OF yes] .
  have g: \<open>list_all (\<lambda>c. c \<noteq> 62) (u '' id="s"'')\<close>
    by (simp add: u_def)
  have t: \<open>sub_spine_toc (u ''</spine>'') = u ''</spine>''\<close>
    by (simp add: eval_text)
  have e: \<open>u ''<spine id="s"></spine>'' = u ''<spine'' @ u '' id="s"'' @ u ''>'' @ u ''</spine>''\<close>
    \<open>u ''<spine id="s" toc="ncx"></spine>'' = u ''<spine'' @ u '' id="s"'' @ u '' toc="ncx">'' @ u ''</spine>''\<close>
    by (simp_all add: u_def)
  have 3: \<open>sub_spine_toc (u ''<spine id="s"></spine>'') = u ''<spine id="s" toc="ncx"></spine>''\<close>
    using ncx_registration [where g = \<open>u '' id="s"''\<close> and rest = \<open>u ''</spine>''\<close>,
        THEN conjunct2, THEN conjunct2, THEN conjunct2, THEN conjunct1, rule_format, OF g]
    unfolding e t .
  have n: \<open>match_spine (u ''><spine>'') = None\<close>
    by (simp add: eval_text)
  have m: \<open>u ''><spine>'' = 62 # u ''<spine>''\<close> \<open>u ''><spine toc="ncx">'' = 62 # u ''<spine toc="ncx">''\<close>
    by (simp_all add: u_def)
  have t2: \<open>sub_spine_toc (u ''<spine>'') = u ''<spine toc="ncx">''\<close>
    by (simp add: eval_text)
  have 4: \<open>sub_spine_toc (u ''><spine>'') = u ''><spine toc="ncx">''\<close>
    using ncx_registration [where c = 62 and cs = \<open>u ''<spine>''\<close>,
        THEN conjunct2, THEN conjunct2, THEN conjunct2, THEN conjunct2, THEN conjunct1, rule_format,
        OF n [unfolded m]]
    unfolding m t2 .
  have l1: \<open>spines_leftmost [SpineTag (u ''</manifest>'') []] (u ''</spine>'')\<close>
    by (simp add: eval_text suffixes_tailrec)
  have l2: \<open>\<not> spines_leftmost [] (u ''</manifest><spine>'')\<close>
    by (simp add: eval_text suffixes_tailrec)
  show ?thesis
    using no 1 patch_opf_sample yes 2 g 3 n 4 l1 l2 by (intro conjI) assumption+
qed

section \<open>Converting twice\<close>

lemma patch_opf_again: "patch_opf opf2_bytes = opf2_bytes"
proof -
  have s1: \<open>replace_str (u ''version="3.0"'') (u ''version="2.0"'') opf2_bytes = opf2_bytes\<close>
    by (rule replace_str_absent) (simp add: opf2_bytes_def eval_text)
  have s2: "sub_nav_props opf2_bytes = opf2_bytes"
    by (rule sub_nav_props_absent) (simp add: opf2_bytes_def eval_text)
  have s3: \<open>sublist (u ''toc.ncx'') opf2_bytes\<close>
    by (simp add: opf2_bytes_def eval_text)
  show ?thesis
    by (simp only: patch_opf_def Let_def s1 s2 s3 simp_thms if_False)
qed

lemma read_package_again:
  "read_package sample_lib sample_out = Inr (Path (u ''OEBPS/content.opf''), u ''Book'', [], [])"
  by (simp add: docs_distinct read_package_def locate_opf_def read_nav_points_def read_xml_def
      zip_read_def sample_out_def sample_lib_def container_tree_def opf2_tree_def
      xml_defs path_defs strip_def isspace_def u_def Let_def)

lemma ncx_sample_empty:
  "ncx_document (u ''Book'') [] (fst (build_ncx_points 1 [])) = sample_ncx_empty"
  by (simp add: ncx_document_def sample_ncx_empty_def u_def Let_def)

lemma convert_again:
  "convert sample_lib self sample_out = (Inr (), \<lparr>play_order = 1\<rparr>, Some sample_out2)"
proof -
  have m: "mimetype_entry sample_out
      = [\<lparr>filename = u ''mimetype'', data = u ''application/epub+zip'', compress_type = ZIP_STORED\<rparr>]"
    by (simp add: mimetype_entry_def zip_read_def sample_out_def u_def)
  have d: "decode_ascii opf2_bytes = Some opf2_bytes"
    by (simp add: decode_ascii_def opf2_bytes_def u_def)
  have c: "copy_items sample_lib sample_out (u ''OEBPS/content.opf'') sample_out
        [\<lparr>filename = u ''mimetype'', data = u ''application/epub+zip'', compress_type = ZIP_STORED\<rparr>]
      = (None, butlast sample_out2)"
    using d patch_opf_again
    by (simp add: sample_out_def sample_out2_def sample_lib_def zip_read_def u_def)
  show ?thesis
    unfolding convert_read_ok [OF read_package_again] sample_paths m c ncx_entry_def ncx_sample_empty
    by (simp add: sample_out2_def sample_lib_def)
qed

text \<open>
  C2 does not hold of the code. Converting the sample gives \<open>sample_out\<close>, with one entry
  \<open>OEBPS/toc.ncx\<close>. Converting \<open>sample_out\<close> again leaves the package document as it is
  (no second manifest item, no second spine attribute), but copies the entry
  \<open>OEBPS/toc.ncx\<close> and then writes a second entry of that name, whose navigation map is
  empty because the first run removed the navigation marker from the manifest.
\<close>

theorem second_run_writes_toc_again:
  "convert sample_lib init sample_zip = (Inr (), \<lparr>play_order = 4\<rparr>, Some sample_out)
   \<and> convert sample_lib \<lparr>play_order = 4\<rparr> sample_out = (Inr (), \<lparr>play_order = 1\<rparr>, Some sample_out2)
   \<and> map filename sample_out2
       = [u ''mimetype'', u ''META-INF/container.xml'', u ''OEBPS/content.opf'', u ''OEBPS/nav.xhtml'',
          u ''OEBPS/c1.xhtml'', u ''OEBPS/toc.ncx'', u ''OEBPS/toc.ncx'']
   \<and> patch_opf opf2_bytes = opf2_bytes"
  using convert_sample [of init] convert_again [of "\<lparr>play_order = 4\<rparr>"] patch_opf_again
  by (simp add: sample_out2_def)

lemma read_package_third:
  "read_package sample_lib sample_out2 = Inr (Path (u ''OEBPS/content.opf''), u ''Book'', [], [])"
  by (simp add: docs_distinct read_package_def locate_opf_def read_nav_points_def read_xml_def
      zip_read_def sample_out2_def sample_lib_def container_tree_def opf2_tree_def
      xml_defs path_defs strip_def isspace_def u_def Let_def)

lemma ncx_texts_differ: "sample_ncx \<noteq> sample_ncx_empty"
  by (simp add: sample_ncx_def sample_ncx_empty_def u_def)

lemma convert_third:
  "convert sample_lib self sample_out2 = (Inr (), \<lparr>play_order = 1\<rparr>, Some sample_out3)"
proof -
  have m: "mimetype_entry sample_out2
      = [\<lparr>filename = u ''mimetype'', data = u ''application/epub+zip'', compress_type = ZIP_STORED\<rparr>]"
    by (simp add: mimetype_entry_def zip_read_def sample_out2_def u_def)
  have d: "decode_ascii opf2_bytes = Some opf2_bytes"
    by (simp add: decode_ascii_def opf2_bytes_def u_def)
  have c: "copy_items sample_lib sample_out2 (u ''OEBPS/content.opf'') sample_out2
        [\<lparr>filename = u ''mimetype'', data = u ''application/epub+zip'', compress_type = ZIP_STORED\<rparr>]
      = (None, butlast sample_out3)"
    using d patch_opf_again
    by (simp add: sample_out2_def sample_out3_def sample_lib_def zip_read_def u_def)
  show ?thesis
    unfolding convert_read_ok [OF read_package_third] sample_paths m c ncx_entry_def ncx_sample_empty
    by (simp add: sample_out3_def sample_lib_def)
qed

text \<open>
  C3, as the claim states it, fails: \<open>sample_out2\<close> has two entries named
  \<open>OEBPS/toc.ncx\<close>, the first with the navigation map of the sample. The loop reads
  every entry by its name, and the archive gives the last entry of a name, so both copies
  get the bytes of the second entry: the conversion succeeds and no entry of the output
  holds the bytes of the first.
\<close>

theorem entries_duplicate_names_counterexample:
  "convert sample_lib init sample_out2 = (Inr (), \<lparr>play_order = 1\<rparr>, Some sample_out3)
   \<and> \<lparr>filename = u ''OEBPS/toc.ncx'', data = sample_ncx, compress_type = ZIP_DEFLATED\<rparr> \<in> set sample_out2
   \<and> u ''OEBPS/toc.ncx'' \<noteq> as_posix (Path (u ''OEBPS/content.opf''))
   \<and> sample_ncx \<notin> set (map data sample_out3)"
proof -
  have a: "\<lparr>filename = u ''OEBPS/toc.ncx'', data = sample_ncx, compress_type = ZIP_DEFLATED\<rparr> \<in> set sample_out2"
    by (simp add: sample_out2_def)
  have b: "u ''OEBPS/toc.ncx'' \<noteq> as_posix (Path (u ''OEBPS/content.opf''))"
    unfolding sample_paths by (simp add: u_def)
  have ne: "sample_ncx \<noteq> u ''application/epub+zip''" "sample_ncx \<noteq> container_bytes"
      "sample_ncx \<noteq> opf2_bytes" "sample_ncx \<noteq> nav_bytes" "sample_ncx \<noteq> u ''<html/>''"
    by (simp_all add: sample_ncx_def container_bytes_def opf2_bytes_def nav_bytes_def u_def)
  have c: "sample_ncx \<notin> set (map data sample_out3)"
    using ne ncx_texts_differ by (simp add: sample_out3_def)
  from convert_third [of init] a b c show ?thesis by blast
qed

end
